theory Spec2Isabelle
  imports Main "HOL-Library.Word" "HOL-Library.AList" "HOL-Library.Char_ord"
    "HOL-Library.List_Lexorder" "HOL-Library.Product_Lexorder"
begin

section \<open>Machine integers and platform constants\<close>

text \<open>
  The C++ fixed-width integers are words: \<open>int64_t\<close> is a 64-bit word read through
  \<open>sint\<close> wherever the source compares with \<open><\<close> or \<open>>\<close>, \<open>int32_t\<close> a 32-bit word.
  \<open>size_t\<close> counters (entry counts, byte totals) are natural numbers: they count objects
  that live in the address space, so they cannot reach \<open>2 ^ 64\<close>, and the invariant proved
  in the last section shows that no subtraction on them ever goes below zero.

  Two things the source leaves to the platform are parameters of the model, bundled in a
  record: \<open>sizeof(CacheEntry)\<close> and \<open>std::hash<std::string>\<close>.
\<close>

type_synonym int64 = "64 word"
type_synonym int32 = "32 word"
type_synonym uint8 = "8 word"

record platform =
  sizeof_CacheEntry :: nat
  std_hash :: "string \<Rightarrow> nat"

section \<open>CacheEntry (include/distcache/cache_entry.h)\<close>

type_synonym VersionVector = "(string \<times> int64) list"

record CacheEntry =
  ce_key :: string
  ce_value :: "uint8 list"
  ce_ttl_seconds :: "int32 option"
  ce_expires_at_ms :: "int64 option"
  ce_version :: int64
  ce_created_at_ms :: int64
  ce_modified_at_ms :: int64
  ce_last_accessed_ms :: int64
  ce_version_vector :: VersionVector

text \<open>
  The three-argument constructor. \<open>now\<close> is what \<open>get_current_time_ms()\<close> returns at the
  call. The product \<open>ttl * 1000\<close> is an \<open>int32_t\<close> product, widened to 64 bits afterwards.
\<close>

definition new_CacheEntry :: "int64 \<Rightarrow> string \<Rightarrow> uint8 list \<Rightarrow> int32 option \<Rightarrow> CacheEntry" where
  "new_CacheEntry now k v ttl =
     \<lparr> ce_key = k, ce_value = v, ce_ttl_seconds = ttl,
       ce_expires_at_ms = (case ttl of None \<Rightarrow> None | Some t \<Rightarrow> Some (now + scast (t * 1000))),
       ce_version = 1, ce_created_at_ms = now, ce_modified_at_ms = now,
       ce_last_accessed_ms = now, ce_version_vector = [] \<rparr>"

text \<open>
  The defaulted constructor \<open>CacheEntry() = default\<close> leaves the integer members
  indeterminate; \<open>indet\<close> stands for whatever they hold.
\<close>

definition default_CacheEntry :: "int64 \<Rightarrow> CacheEntry" where
  "default_CacheEntry indet =
     \<lparr> ce_key = [], ce_value = [], ce_ttl_seconds = None, ce_expires_at_ms = None,
       ce_version = indet, ce_created_at_ms = indet, ce_modified_at_ms = indet,
       ce_last_accessed_ms = indet, ce_version_vector = [] \<rparr>"

definition is_expired :: "int64 \<Rightarrow> CacheEntry \<Rightarrow> bool" where
  "is_expired now e = (case ce_expires_at_ms e of None \<Rightarrow> False | Some t \<Rightarrow> t <s now)"

definition touch :: "int64 \<Rightarrow> CacheEntry \<Rightarrow> CacheEntry" where
  "touch now e = e\<lparr>ce_last_accessed_ms := now\<rparr>"

definition total_size :: "platform \<Rightarrow> CacheEntry \<Rightarrow> nat" where
  "total_size pf e = sizeof_CacheEntry pf + length (ce_key e) + length (ce_value e)"

section \<open>ShardedHashTable (src/cache/storage_engine.cpp)\<close>

text \<open>
  A shard's \<open>unordered_map\<close> is an association list (\<open>find\<close> is \<open>map_of\<close>, assignment to
  a found slot and insertion of a fresh key are \<open>AList.update\<close>, \<open>erase\<close> is
  \<open>AList.delete\<close>); its \<open>std::list\<close> of keys has the most recently used key first. The
  two atomics \<open>total_memory_bytes_\<close> and \<open>total_entries_\<close> and the metrics are fields of
  the engine. Locks are not modelled: every operation runs alone.
\<close>

record Metrics =
  m_cache_hits :: nat
  m_cache_misses :: nat
  m_sets_total :: nat
  m_deletes_total :: nat
  m_evictions_total :: nat
  m_entries_count :: nat
  m_memory_bytes :: nat

record Shard =
  sh_data :: "(string \<times> CacheEntry) list"
  sh_lru_list :: "string list"
  sh_memory_bytes :: nat

record ShardedHashTable =
  shards :: "Shard list"
  max_memory_bytes :: nat
  total_memory_bytes :: nat
  total_entries :: nat
  metrics :: Metrics

definition empty_Metrics :: Metrics where
  "empty_Metrics = \<lparr> m_cache_hits = 0, m_cache_misses = 0, m_sets_total = 0,
     m_deletes_total = 0, m_evictions_total = 0, m_entries_count = 0, m_memory_bytes = 0 \<rparr>"

definition empty_Shard :: Shard where
  "empty_Shard = \<lparr> sh_data = [], sh_lru_list = [], sh_memory_bytes = 0 \<rparr>"

definition new_ShardedHashTable :: "nat \<Rightarrow> nat \<Rightarrow> ShardedHashTable" where
  "new_ShardedHashTable num_shards max_bytes =
     \<lparr> shards = replicate num_shards empty_Shard, max_memory_bytes = max_bytes,
       total_memory_bytes = 0, total_entries = 0, metrics = empty_Metrics \<rparr>"

definition get_shard_index :: "platform \<Rightarrow> ShardedHashTable \<Rightarrow> string \<Rightarrow> nat" where
  "get_shard_index pf e k = std_hash pf k mod length (shards e)"

definition get_shard :: "platform \<Rightarrow> ShardedHashTable \<Rightarrow> string \<Rightarrow> Shard" where
  "get_shard pf e k = shards e ! get_shard_index pf e k"

definition put_shard :: "platform \<Rightarrow> ShardedHashTable \<Rightarrow> string \<Rightarrow> Shard \<Rightarrow> ShardedHashTable" where
  "put_shard pf e k s = e\<lparr>shards := (shards e)[get_shard_index pf e k := s]\<rparr>"

definition size_e :: "ShardedHashTable \<Rightarrow> nat" where
  "size_e e = total_entries e"

definition memory_usage :: "ShardedHashTable \<Rightarrow> nat" where
  "memory_usage e = total_memory_bytes e"

text \<open>\<open>splice(begin, list, it)\<close>: the key's node moves to the front.\<close>

definition splice_front :: "string \<Rightarrow> string list \<Rightarrow> string list" where
  "splice_front k l = k # remove1 k l"

definition miss :: "ShardedHashTable \<Rightarrow> ShardedHashTable" where
  "miss e = e\<lparr>metrics := (metrics e)\<lparr>m_cache_misses := m_cache_misses (metrics e) + 1\<rparr>\<rparr>"

definition get :: "platform \<Rightarrow> int64 \<Rightarrow> string \<Rightarrow> ShardedHashTable \<Rightarrow> CacheEntry option \<times> ShardedHashTable" where
  "get pf now k e =
     (let shard = get_shard pf e k in
      case map_of (sh_data shard) k of
        None \<Rightarrow> (None, miss e)
      | Some ent \<Rightarrow>
          if is_expired now ent then (None, miss e)
          else
            let ent' = touch now ent;
                shard' = shard\<lparr> sh_lru_list := splice_front k (sh_lru_list shard),
                                sh_data := AList.update k ent' (sh_data shard) \<rparr>;
                e' = put_shard pf e k shard'
            in (Some ent',
                e'\<lparr>metrics := (metrics e')\<lparr>m_cache_hits := m_cache_hits (metrics e') + 1\<rparr>\<rparr>))"

definition needs_eviction :: "nat \<Rightarrow> nat \<Rightarrow> nat \<Rightarrow> bool" where
  "needs_eviction max_bytes total_bytes new_entry_size = (total_bytes + new_entry_size > max_bytes)"

text \<open>
  The eviction loop works on the shard it was handed and on the engine-wide counters;
  the model passes them as one state: the shard, \<open>total_memory_bytes_\<close>,
  \<open>total_entries_\<close> and the metrics.
\<close>

type_synonym evict_state = "Shard \<times> nat \<times> nat \<times> Metrics"

function evict_if_needed :: "platform \<Rightarrow> nat \<Rightarrow> nat \<Rightarrow> evict_state \<Rightarrow> evict_state" where
  "evict_if_needed pf max_bytes required_space (shard, tmem, tent, mt) =
     (if needs_eviction max_bytes tmem required_space \<and> sh_lru_list shard \<noteq> [] then
        (let lru_key = last (sh_lru_list shard) in
         case map_of (sh_data shard) lru_key of
           Some ent \<Rightarrow>
             (let entry_size = total_size pf ent;
                  shard' = shard\<lparr> sh_data := AList.delete lru_key (sh_data shard),
                                  sh_lru_list := butlast (sh_lru_list shard),
                                  sh_memory_bytes := sh_memory_bytes shard - entry_size \<rparr>;
                  tmem' = tmem - entry_size;
                  tent' = tent - 1;
                  mt' = mt\<lparr> m_evictions_total := m_evictions_total mt + 1,
                            m_entries_count := tent', m_memory_bytes := tmem' \<rparr>
              in evict_if_needed pf max_bytes required_space (shard', tmem', tent', mt'))
         | None \<Rightarrow>
             evict_if_needed pf max_bytes required_space
               (shard\<lparr>sh_lru_list := butlast (sh_lru_list shard)\<rparr>, tmem, tent, mt))
      else (shard, tmem, tent, mt))"
  by pat_completeness auto
termination
  by (relation "measure (\<lambda>(pf, mx, rq, (s, tm, te, mt)). length (sh_lru_list s))") auto

declare evict_if_needed.simps [simp del]

definition set_e :: "platform \<Rightarrow> string \<Rightarrow> CacheEntry \<Rightarrow> ShardedHashTable \<Rightarrow> bool \<times> ShardedHashTable" where
  "set_e pf k entry e =
     (let shard = get_shard pf e k;
          entry_size = total_size pf entry
      in case map_of (sh_data shard) k of
        Some old \<Rightarrow>
          (let old_size = total_size pf old;
               shard' = shard\<lparr> sh_data := AList.update k entry (sh_data shard),
                               sh_lru_list := splice_front k (sh_lru_list shard),
                               sh_memory_bytes := sh_memory_bytes shard - old_size + entry_size \<rparr>
           in (True, (put_shard pf e k shard')
                       \<lparr>total_memory_bytes := total_memory_bytes e - old_size + entry_size\<rparr>))
      | None \<Rightarrow>
          (let (shard1, tmem1, tent1, mt1) =
                 (if needs_eviction (max_memory_bytes e) (total_memory_bytes e) entry_size
                  then evict_if_needed pf (max_memory_bytes e) entry_size
                         (shard, total_memory_bytes e, total_entries e, metrics e)
                  else (shard, total_memory_bytes e, total_entries e, metrics e));
               shard2 = shard1\<lparr> sh_lru_list := k # sh_lru_list shard1,
                                sh_data := AList.update k entry (sh_data shard1),
                                sh_memory_bytes := sh_memory_bytes shard1 + entry_size \<rparr>;
               tmem2 = tmem1 + entry_size;
               tent2 = tent1 + 1;
               mt2 = mt1\<lparr> m_sets_total := m_sets_total mt1 + 1,
                          m_entries_count := tent2, m_memory_bytes := tmem2 \<rparr>
           in (True, (put_shard pf e k shard2)
                       \<lparr>total_memory_bytes := tmem2, total_entries := tent2, metrics := mt2\<rparr>)))"

definition del :: "platform \<Rightarrow> string \<Rightarrow> ShardedHashTable \<Rightarrow> bool \<times> ShardedHashTable" where
  "del pf k e =
     (let shard = get_shard pf e k in
      case map_of (sh_data shard) k of
        None \<Rightarrow> (False, e)
      | Some ent \<Rightarrow>
          (let entry_size = total_size pf ent;
               shard' = shard\<lparr> sh_lru_list := remove1 k (sh_lru_list shard),
                               sh_data := AList.delete k (sh_data shard),
                               sh_memory_bytes := sh_memory_bytes shard - entry_size \<rparr>;
               tmem' = total_memory_bytes e - entry_size;
               tent' = total_entries e - 1;
               mt' = (metrics e)\<lparr> m_deletes_total := m_deletes_total (metrics e) + 1,
                                  m_entries_count := tent', m_memory_bytes := tmem' \<rparr>
           in (True, (put_shard pf e k shard')
                       \<lparr>total_memory_bytes := tmem', total_entries := tent', metrics := mt'\<rparr>)))"

record CASResult =
  cas_success :: bool
  cas_new_version :: int64
  cas_actual_version :: int64
  cas_error :: string

definition compare_and_swap ::
  "platform \<Rightarrow> int64 \<Rightarrow> string \<Rightarrow> int64 \<Rightarrow> CacheEntry \<Rightarrow> ShardedHashTable \<Rightarrow> CASResult \<times> ShardedHashTable" where
  "compare_and_swap pf now k expected_version new_entry e =
     (let shard = get_shard pf e k in
      case map_of (sh_data shard) k of
        None \<Rightarrow>
          (\<lparr>cas_success = False, cas_new_version = 0, cas_actual_version = 0,
            cas_error = ''Key not found''\<rparr>, e)
      | Some cur \<Rightarrow>
          if is_expired now cur then
            (\<lparr>cas_success = False, cas_new_version = 0, cas_actual_version = 0,
              cas_error = ''Key expired''\<rparr>, e)
          else
            (let actual_version = ce_version cur in
             if actual_version \<noteq> expected_version then
               (\<lparr>cas_success = False, cas_new_version = 0, cas_actual_version = actual_version,
                 cas_error = ''Version mismatch''\<rparr>, e)
             else
               (let old_size = total_size pf cur;
                    new_entry' = new_entry\<lparr> ce_version := actual_version + 1,
                                            ce_modified_at_ms := now,
                                            ce_last_accessed_ms := now \<rparr>;
                    new_size = total_size pf new_entry';
                    shard' = shard\<lparr> sh_data := AList.update k new_entry' (sh_data shard),
                                    sh_lru_list := splice_front k (sh_lru_list shard),
                                    sh_memory_bytes := sh_memory_bytes shard - old_size + new_size \<rparr>;
                    tmem' = total_memory_bytes e - old_size + new_size;
                    mt' = (metrics e)\<lparr> m_sets_total := m_sets_total (metrics e) + 1,
                                       m_memory_bytes := tmem' \<rparr>
                in (\<lparr>cas_success = True, cas_new_version = actual_version + 1,
                     cas_actual_version = 0, cas_error = []\<rparr>,
                    (put_shard pf e k shard')\<lparr>total_memory_bytes := tmem', metrics := mt'\<rparr>))))"

definition exists_e :: "platform \<Rightarrow> int64 \<Rightarrow> string \<Rightarrow> ShardedHashTable \<Rightarrow> bool" where
  "exists_e pf now k e =
     (case map_of (sh_data (get_shard pf e k)) k of
        None \<Rightarrow> False
      | Some ent \<Rightarrow> \<not> is_expired now ent)"

definition clear :: "ShardedHashTable \<Rightarrow> ShardedHashTable" where
  "clear e = e\<lparr> shards := map (\<lambda>s. s\<lparr>sh_data := [], sh_lru_list := [], sh_memory_bytes := 0\<rparr>) (shards e),
               total_memory_bytes := 0, total_entries := 0 \<rparr>"

text \<open>
  \<open>for_each\<close> with a visitor that collects what it is shown: the unexpired entries,
  shard by shard.
\<close>

definition for_each :: "int64 \<Rightarrow> ShardedHashTable \<Rightarrow> (string \<times> CacheEntry) list" where
  "for_each now e = concat (map (\<lambda>s. filter (\<lambda>(k, ent). \<not> is_expired now ent) (sh_data s)) (shards e))"

text \<open>What a reader finds under a key in the shard maps, expired or not.\<close>

definition stored :: "platform \<Rightarrow> ShardedHashTable \<Rightarrow> string \<Rightarrow> CacheEntry option" where
  "stored pf e k = map_of (sh_data (get_shard pf e k)) k"

section \<open>The cache service handlers (src/main.cpp)\<close>

text \<open>
  Each handler first runs its boundary checks (rate limit, authentication, validation);
  a failing check returns its status before the engine is touched. The model takes the
  outcome of those checks as \<open>gate\<close>: \<open>None\<close> when they pass, the status otherwise.
\<close>

datatype StatusCode = OK | INVALID_ARGUMENT | UNAUTHENTICATED | PERMISSION_DENIED | RESOURCE_EXHAUSTED

record SetResponse =
  sr_success :: bool
  sr_version :: int64

record GetResponse =
  gr_found :: bool
  gr_value :: "uint8 list"
  gr_version :: int64

definition Set_rpc ::
  "platform \<Rightarrow> StatusCode option \<Rightarrow> int64 \<Rightarrow> string \<Rightarrow> uint8 list \<Rightarrow> int32 option \<Rightarrow> ShardedHashTable
     \<Rightarrow> StatusCode \<times> SetResponse \<times> ShardedHashTable" where
  "Set_rpc pf gate now k v ttl storage =
     (case gate of
        Some st \<Rightarrow> (st, \<lparr>sr_success = False, sr_version = 0\<rparr>, storage)
      | None \<Rightarrow>
          (let entry = new_CacheEntry now k v ttl;
               (success, storage') = set_e pf k entry storage
           in (OK, \<lparr>sr_success = success, sr_version = 1\<rparr>, storage')))"

definition Get_rpc ::
  "platform \<Rightarrow> StatusCode option \<Rightarrow> int64 \<Rightarrow> string \<Rightarrow> ShardedHashTable
     \<Rightarrow> StatusCode \<times> GetResponse \<times> ShardedHashTable" where
  "Get_rpc pf gate now k storage =
     (case gate of
        Some st \<Rightarrow> (st, \<lparr>gr_found = False, gr_value = [], gr_version = 0\<rparr>, storage)
      | None \<Rightarrow>
          (case get pf now k storage of
             (Some entry, storage') \<Rightarrow>
               (OK, \<lparr>gr_found = True, gr_value = ce_value entry, gr_version = ce_version entry\<rparr>, storage')
           | (None, storage') \<Rightarrow>
               (OK, \<lparr>gr_found = False, gr_value = [], gr_version = 0\<rparr>, storage')))"

section \<open>Replication (src/replication/replication_manager.cpp)\<close>

datatype Operation = Rep_SET | Rep_DELETE

record QueuedEntry =
  q_op :: Operation
  q_key :: string
  q_value :: string
  q_ttl_seconds :: int32
  q_version :: int64
  q_queued_at :: nat

text \<open>
  The manager's queue (front first), its configured bound and the counter of queued
  operations. \<open>now\<close> is the reading of the steady clock.
\<close>

record ReplicationManager =
  rm_max_queue_size :: nat
  rm_queue :: "QueuedEntry list"
  rm_queued_ops :: nat

definition QueueWrite ::
  "nat \<Rightarrow> string \<Rightarrow> string \<Rightarrow> int32 \<Rightarrow> int64 \<Rightarrow> ReplicationManager \<Rightarrow> bool \<times> ReplicationManager" where
  "QueueWrite now k v ttl ver m =
     (if length (rm_queue m) \<ge> rm_max_queue_size m then (False, m)
      else
        (let entry = \<lparr> q_op = Rep_SET, q_key = k, q_value = v, q_ttl_seconds = ttl,
                        q_version = ver, q_queued_at = now \<rparr>
         in (True, m\<lparr> rm_queue := rm_queue m @ [entry], rm_queued_ops := rm_queued_ops m + 1 \<rparr>)))"

definition QueueDelete ::
  "nat \<Rightarrow> string \<Rightarrow> int64 \<Rightarrow> ReplicationManager \<Rightarrow> bool \<times> ReplicationManager" where
  "QueueDelete now k ver m =
     (if length (rm_queue m) \<ge> rm_max_queue_size m then (False, m)
      else
        (let entry = \<lparr> q_op = Rep_DELETE, q_key = k, q_value = [], q_ttl_seconds = 0,
                        q_version = ver, q_queued_at = now \<rparr>
         in (True, m\<lparr> rm_queue := rm_queue m @ [entry], rm_queued_ops := rm_queued_ops m + 1 \<rparr>)))"

record ReplicationEntry =
  re_op :: Operation
  re_key :: string
  re_value :: string
  re_ttl_seconds :: int32
  re_version :: int64

record ReplicationBatch =
  rb_source_node_id :: string
  rb_timestamp :: int64
  rb_entries :: "ReplicationEntry list"

record ReplicationServiceImpl =
  rs_storage :: ShardedHashTable
  rs_batches_received :: nat
  rs_entries_applied :: nat
  rs_entries_failed :: nat
  rs_last_applied_timestamp :: int64

record ReplicationAck =
  ack_success :: bool
  ack_last_applied_timestamp :: int64

definition bytes_of :: "string \<Rightarrow> uint8 list" where
  "bytes_of s = map (\<lambda>c. of_char c) s"

text \<open>
  The body of the loop over the batch, on the follower's engine and the two local
  counters \<open>applied\<close> and \<open>failed\<close>; one clock reading serves the whole batch, and
  the acknowledgement's error text is left out. The entry is built on a default-constructed
  \<open>CacheEntry\<close>, whose members the loop does not assign stay indeterminate.
\<close>

definition apply_entry ::
  "platform \<Rightarrow> int64 \<Rightarrow> int64 \<Rightarrow> ReplicationEntry \<Rightarrow> ShardedHashTable \<times> nat \<times> nat
     \<Rightarrow> ShardedHashTable \<times> nat \<times> nat" where
  "apply_entry pf now indet entry = (\<lambda>(storage, applied, failed).
     (case re_op entry of
        Rep_SET \<Rightarrow>
          (let cache_entry = (default_CacheEntry indet)
                 \<lparr> ce_value := bytes_of (re_value entry),
                   ce_ttl_seconds := (if 0 <s re_ttl_seconds entry then Some (re_ttl_seconds entry) else None),
                   ce_version := re_version entry,
                   ce_created_at_ms := now,
                   ce_last_accessed_ms := now \<rparr>;
               (ok, storage') = set_e pf (re_key entry) cache_entry storage
           in if ok then (storage', applied + 1, failed) else (storage', applied, failed + 1))
      | Rep_DELETE \<Rightarrow>
          (let (ok, storage') = del pf (re_key entry) storage
           in (storage', applied + 1, failed))))"

definition Replicate ::
  "platform \<Rightarrow> int64 \<Rightarrow> int64 \<Rightarrow> ReplicationBatch \<Rightarrow> ReplicationServiceImpl
     \<Rightarrow> ReplicationAck \<times> ReplicationServiceImpl" where
  "Replicate pf now indet request svc =
     (let (storage', applied, failed) =
            fold (apply_entry pf now indet) (rb_entries request) (rs_storage svc, 0, 0)
      in (\<lparr> ack_success = (failed = 0), ack_last_applied_timestamp = rb_timestamp request \<rparr>,
          svc\<lparr> rs_storage := storage',
               rs_batches_received := rs_batches_received svc + 1,
               rs_entries_applied := rs_entries_applied svc + applied,
               rs_entries_failed := rs_entries_failed svc + failed,
               rs_last_applied_timestamp := rb_timestamp request \<rparr>))"

section \<open>Write-ahead log (src/persistence/wal.cpp)\<close>

datatype WAL_Type = WAL_SET | WAL_DELETE | WAL_CAS

record WALEntry =
  we_type :: WAL_Type
  we_sequence_number :: int64
  we_timestamp_ms :: int64
  we_key :: string
  we_value :: "uint8 list"
  we_version :: int64
  we_ttl_seconds :: "int32 option"
  we_expected_version :: "int64 option"

text \<open>
  The log's state: the configuration it reads, the \<open>is_open_\<close> flag, whether
  \<open>log_file_\<close> is an open stream, the size and sequence counters, the statistics, and
  \<open>wal_written\<close>, the records \<open>WriteEntryToFile\<close> has handed to a log file, oldest
  first. What the file system answers during one call is the call's \<open>io\<close> argument:
  whether the stream opens, the size of the file found at the path, whether the header
  and the record serialise, and their serialised lengths. A call that does not return
  has the value \<open>None\<close>: \<open>AppendEntry\<close> holds \<open>mutex_\<close> for its whole body, and
  with \<open>sync_on_write\<close> set it ends by calling \<open>Sync\<close>, which locks the same
  non-recursive mutex again and so never gets it. \<open>Sync\<close> called on its own, with the
  mutex free, returns.
\<close>

record WAL =
  wal_max_file_size_bytes :: nat
  wal_sync_on_write :: bool
  wal_is_open :: bool
  wal_file_open :: bool
  wal_current_file_size :: nat
  wal_last_sequence :: int64
  wal_total_entries_written :: nat
  wal_total_syncs :: nat
  wal_total_rotations :: nat
  wal_written :: "WALEntry list"

record io =
  io_open_ok :: bool
  io_existing_size :: nat
  io_header_ok :: bool
  io_header_len :: nat
  io_entry_ok :: bool
  io_entry_len :: nat

definition new_WAL :: "nat \<Rightarrow> bool \<Rightarrow> WAL" where
  "new_WAL max_size sync =
     \<lparr> wal_max_file_size_bytes = max_size, wal_sync_on_write = sync, wal_is_open = False,
       wal_file_open = False, wal_current_file_size = 0, wal_last_sequence = 0,
       wal_total_entries_written = 0, wal_total_syncs = 0, wal_total_rotations = 0,
       wal_written = [] \<rparr>"

definition Open :: "io \<Rightarrow> WAL \<Rightarrow> WAL" where
  "Open env w =
     (if wal_is_open w then w
      else if \<not> io_open_ok env then w\<lparr>wal_file_open := False\<rparr>
      else if io_existing_size env = 0 then
        (if \<not> io_header_ok env then w\<lparr>wal_file_open := True\<rparr>
         else w\<lparr> wal_file_open := True, wal_current_file_size := 4 + io_header_len env,
                 wal_is_open := True \<rparr>)
      else w\<lparr> wal_file_open := True, wal_current_file_size := io_existing_size env,
              wal_is_open := True \<rparr>)"

definition ShouldRotate :: "WAL \<Rightarrow> bool" where
  "ShouldRotate w = (wal_current_file_size w \<ge> wal_max_file_size_bytes w)"

definition RotateLog :: "io \<Rightarrow> WAL \<Rightarrow> bool \<times> WAL" where
  "RotateLog env w =
     (if \<not> io_open_ok env then (False, w\<lparr>wal_file_open := False, wal_is_open := False\<rparr>)
      else if \<not> io_header_ok env then (False, w\<lparr>wal_file_open := True\<rparr>)
      else (True, w\<lparr> wal_file_open := True, wal_current_file_size := 4 + io_header_len env,
                      wal_total_rotations := wal_total_rotations w + 1 \<rparr>))"

definition WriteEntryToFile :: "io \<Rightarrow> WALEntry \<Rightarrow> WAL \<Rightarrow> bool \<times> WAL" where
  "WriteEntryToFile env entry w =
     (if \<not> wal_file_open w then (False, w)
      else if \<not> io_entry_ok env then (False, w)
      else (True, w\<lparr> wal_current_file_size := wal_current_file_size w + (4 + io_entry_len env),
                      wal_written := wal_written w @ [entry] \<rparr>))"

definition Sync :: "WAL \<Rightarrow> bool \<times> WAL" where
  "Sync w =
     (if \<not> wal_file_open w then (False, w)
      else (True, w\<lparr>wal_total_syncs := wal_total_syncs w + 1\<rparr>))"

definition AppendEntry :: "io \<Rightarrow> WALEntry \<Rightarrow> WAL \<Rightarrow> (bool \<times> WAL) option" where
  "AppendEntry env entry w =
     (if \<not> wal_is_open w then Some (False, w)
      else
        (let numbered_entry = entry\<lparr>we_sequence_number := wal_last_sequence w + 1\<rparr>;
             w1 = w\<lparr>wal_last_sequence := wal_last_sequence w + 1\<rparr>;
             (rotated, w2) = (if ShouldRotate w1 then RotateLog env w1 else (True, w1))
         in if \<not> rotated then Some (False, w2)
            else
              (let (wrote, w3) = WriteEntryToFile env numbered_entry w2
               in if \<not> wrote then Some (False, w3)
                  else
                    (let w4 = w3\<lparr>wal_total_entries_written := wal_total_entries_written w3 + 1\<rparr>
                     in if wal_sync_on_write w4 then None else Some (True, w4)))))"

definition GetLastSequenceNumber :: "WAL \<Rightarrow> int64" where
  "GetLastSequenceNumber w = wal_last_sequence w"

section \<open>Snapshots and recovery (src/cluster/snapshot_manager.cpp, src/persistence/recovery_manager.cpp)\<close>

record SnapshotMetadata =
  sm_snapshot_id :: string
  sm_timestamp :: int
  sm_num_keys :: nat
  sm_total_bytes :: nat
  sm_node_id :: string
  sm_checksum :: string
  sm_file_path :: string

record SnapshotManager =
  snm_snapshots :: "SnapshotMetadata list"
  snm_total_restores :: nat
  snm_total_restores_failed :: nat

text \<open>
  The snapshot directory as \<open>ReadSnapshotFromFile\<close> sees it: for a path, \<open>None\<close> when
  the function returns false (the file does not open, or its first line is not the
  format's header), and otherwise the entries it reads.
\<close>

type_synonym snapshot_dir = "string \<Rightarrow> (string \<times> CacheEntry) list option"

definition ListSnapshots :: "SnapshotManager \<Rightarrow> SnapshotMetadata list" where
  "ListSnapshots m = snm_snapshots m"

definition GetSnapshotMetadata :: "SnapshotManager \<Rightarrow> string \<Rightarrow> SnapshotMetadata option" where
  "GetSnapshotMetadata m sid = find (\<lambda>meta. sm_snapshot_id meta = sid) (snm_snapshots m)"

definition RestoreFromSnapshot ::
  "platform \<Rightarrow> snapshot_dir \<Rightarrow> string \<Rightarrow> SnapshotManager \<times> ShardedHashTable
     \<Rightarrow> bool \<times> SnapshotManager \<times> ShardedHashTable" where
  "RestoreFromSnapshot pf dir sid = (\<lambda>(m, storage).
     (case GetSnapshotMetadata m sid of
        None \<Rightarrow> (False, m\<lparr>snm_total_restores_failed := snm_total_restores_failed m + 1\<rparr>, storage)
      | Some meta \<Rightarrow>
          (case dir (sm_file_path meta) of
             None \<Rightarrow> (False, m\<lparr>snm_total_restores_failed := snm_total_restores_failed m + 1\<rparr>, storage)
           | Some entries \<Rightarrow>
               (True, m\<lparr>snm_total_restores := snm_total_restores m + 1\<rparr>,
                fold (\<lambda>(k, entry) st. snd (set_e pf k entry st)) entries storage))))"

record RecoveryResult =
  rr_snapshot_restored :: bool
  rr_snapshot_id :: string
  rr_snapshot_keys_count :: nat

definition empty_RecoveryResult :: RecoveryResult where
  "empty_RecoveryResult = \<lparr> rr_snapshot_restored = False, rr_snapshot_id = [], rr_snapshot_keys_count = 0 \<rparr>"

text \<open>\<open>std::sort\<close> with the comparator \<open>a.timestamp > b.timestamp\<close>: latest first.\<close>

definition sort_latest_first :: "SnapshotMetadata list \<Rightarrow> SnapshotMetadata list" where
  "sort_latest_first xs = sort_key (\<lambda>m. - sm_timestamp m) xs"

definition RestoreSnapshot ::
  "platform \<Rightarrow> snapshot_dir \<Rightarrow> RecoveryResult \<Rightarrow> SnapshotManager \<times> ShardedHashTable
     \<Rightarrow> bool \<times> RecoveryResult \<times> SnapshotManager \<times> ShardedHashTable" where
  "RestoreSnapshot pf dir result = (\<lambda>(m, storage).
     (case sort_latest_first (ListSnapshots m) of
        [] \<Rightarrow> (False, result, m, storage)
      | latest # rest \<Rightarrow>
          (case RestoreFromSnapshot pf dir (sm_snapshot_id latest) (m, storage) of
             (False, m', storage') \<Rightarrow> (False, result, m', storage')
           | (True, m', storage') \<Rightarrow>
               (True, result\<lparr> rr_snapshot_restored := True,
                             rr_snapshot_id := sm_snapshot_id latest,
                             rr_snapshot_keys_count := sm_num_keys latest \<rparr>, m', storage'))))"

section \<open>Rebalance orchestrator (src/cluster/rebalance_orchestrator.cpp)\<close>

text \<open>
  A ring is what \<open>get_node\<close> answers for a key: the id of the owning node, or nothing on
  an empty ring. The orchestrator holds the old and the new ring, its job table
  (\<open>std::map\<close> from job id to job), the job counter and the two statistics
  \<open>start_drain\<close> updates. \<open>mk_id\<close> renders a job id from the clock's seconds and the
  counter. The detached threads that run the jobs are outside the model.
\<close>

type_synonym HashRing = "string \<Rightarrow> string option"

record RebalanceJob =
  job_id :: string
  source_node_id :: string
  target_node_id :: string
  started_at :: nat
  keys_migrated :: nat
  keys_total :: nat
  job_completed :: bool
  job_failed :: bool

record RebalanceOrchestrator =
  old_ring :: HashRing
  new_ring :: HashRing
  jobs :: "(string \<times> RebalanceJob) list"
  job_counter :: nat
  stats_total_jobs :: nat
  stats_active_jobs :: nat

type_synonym migration_paths = "((string \<times> string) \<times> string list) list"

text \<open>\<open>paths[{source, target}].push_back(key)\<close> on the \<open>std::map\<close>.\<close>

definition push_path :: "string \<times> string \<Rightarrow> string \<Rightarrow> migration_paths \<Rightarrow> migration_paths" where
  "push_path p k paths =
     (case map_of paths p of
        None \<Rightarrow> AList.update p [k] paths
      | Some ks \<Rightarrow> AList.update p (ks @ [k]) paths)"

definition group_keys_by_migration_path :: "RebalanceOrchestrator \<Rightarrow> string list \<Rightarrow> migration_paths" where
  "group_keys_by_migration_path ro ks =
     fold (\<lambda>k paths.
            (case (old_ring ro k, new_ring ro k) of
               (Some old_node, Some new_node) \<Rightarrow>
                 if old_node \<noteq> new_node then push_path (old_node, new_node) k paths else paths
             | _ \<Rightarrow> paths))
          ks []"

definition generate_job_id :: "(nat \<Rightarrow> nat \<Rightarrow> string) \<Rightarrow> nat \<Rightarrow> RebalanceOrchestrator \<Rightarrow> string \<times> RebalanceOrchestrator" where
  "generate_job_id mk_id now ro = (mk_id now (job_counter ro), ro\<lparr>job_counter := job_counter ro + 1\<rparr>)"

text \<open>
  One turn of the loop over the migration paths, which a \<open>std::map\<close> yields in the
  order of its keys: a job is created and entered in the job table.
\<close>

definition create_drain_job ::
  "(nat \<Rightarrow> nat \<Rightarrow> string) \<Rightarrow> nat \<Rightarrow> (string \<times> string) \<times> string list
     \<Rightarrow> string \<times> RebalanceOrchestrator \<Rightarrow> string \<times> RebalanceOrchestrator" where
  "create_drain_job mk_id now = (\<lambda>((source_node, target_node), ks) (first_job_id, ro).
     (let (jid, ro1) = generate_job_id mk_id now ro;
          job = \<lparr> job_id = jid, source_node_id = source_node, target_node_id = target_node,
                  started_at = now, keys_migrated = 0, keys_total = length ks,
                  job_completed = False, job_failed = False \<rparr>
      in (if first_job_id = [] then jid else first_job_id,
          ro1\<lparr>jobs := AList.update jid job (jobs ro1)\<rparr>)))"

definition start_drain ::
  "(nat \<Rightarrow> nat \<Rightarrow> string) \<Rightarrow> nat \<Rightarrow> int64 \<Rightarrow> ShardedHashTable \<Rightarrow> RebalanceOrchestrator
     \<Rightarrow> string \<times> RebalanceOrchestrator" where
  "start_drain mk_id now now_ms storage ro =
     (let all_keys = map fst (for_each now_ms storage) in
      if all_keys = [] then ([], ro)
      else
        (let migration_paths = sort_key fst (group_keys_by_migration_path ro all_keys);
             (first_job_id, ro1) = fold (create_drain_job mk_id now) migration_paths ([], ro)
         in (first_job_id,
             ro1\<lparr> stats_total_jobs := stats_total_jobs ro1 + length migration_paths,
                  stats_active_jobs := stats_active_jobs ro1 + length migration_paths \<rparr>)))"

section \<open>Version vectors (include/distcache/version_vector.h)\<close>

text \<open>
  A version vector is an \<open>unordered_map\<close> from node id to \<open>int64_t\<close>: an association
  list, iterated in the order of the list. The comparisons are the signed ones of
  \<open>int64_t\<close>.
\<close>

datatype ComparisonResult = EQUAL | LESS | GREATER | CONCURRENT

definition GetVersion :: "VersionVector \<Rightarrow> string \<Rightarrow> int64" where
  "GetVersion vv node_id = (case map_of vv node_id of Some v \<Rightarrow> v | None \<Rightarrow> 0)"

definition all_nodes :: "VersionVector \<Rightarrow> VersionVector \<Rightarrow> string list" where
  "all_nodes v1 v2 = map fst v1 @ filter (\<lambda>n. map_of v1 n = None) (map fst v2)"

fun compare_loop :: "VersionVector \<Rightarrow> VersionVector \<Rightarrow> string list \<Rightarrow> bool \<Rightarrow> bool \<Rightarrow> ComparisonResult" where
  "compare_loop v1 v2 [] v1_dominates v2_dominates =
     (if v1_dominates \<and> \<not> v2_dominates then GREATER
      else if v2_dominates \<and> \<not> v1_dominates then LESS
      else EQUAL)"
| "compare_loop v1 v2 (node_id # rest) v1_dominates v2_dominates =
     (let ver1 = GetVersion v1 node_id;
          ver2 = GetVersion v2 node_id;
          d1 = (if ver2 <s ver1 then True else v1_dominates);
          d2 = (if ver2 <s ver1 then v2_dominates else if ver1 <s ver2 then True else v2_dominates)
      in if d1 \<and> d2 then CONCURRENT else compare_loop v1 v2 rest d1 d2)"

definition Compare :: "VersionVector \<Rightarrow> VersionVector \<Rightarrow> ComparisonResult" where
  "Compare v1 v2 = compare_loop v1 v2 (all_nodes v1 v2) False False"

text \<open>\<open>std::max(a, b)\<close> on \<open>int64_t\<close>: \<open>b\<close> when \<open>a < b\<close>, else \<open>a\<close>.\<close>

definition std_max :: "int64 \<Rightarrow> int64 \<Rightarrow> int64" where
  "std_max a b = (if a <s b then b else a)"

definition Merge :: "VersionVector \<Rightarrow> VersionVector \<Rightarrow> VersionVector" where
  "Merge v1 v2 =
     fold (\<lambda>(node_id, version) result.
            (case map_of result node_id of
               None \<Rightarrow> AList.update node_id version result
             | Some cur \<Rightarrow> AList.update node_id (std_max cur version) result))
          v2 v1"

text \<open>\<open>Increment\<close> returns the node's new counter and the updated vector.\<close>

definition Increment :: "VersionVector \<Rightarrow> string \<Rightarrow> int64 \<times> VersionVector" where
  "Increment vv node_id =
     (case map_of vv node_id of
        None \<Rightarrow> (1, AList.update node_id 1 vv)
      | Some v \<Rightarrow> (v + 1, AList.update node_id (v + 1) vv))"

definition Dominates :: "VersionVector \<Rightarrow> VersionVector \<Rightarrow> bool" where
  "Dominates v1 v2 = (Compare v1 v2 = GREATER)"

section \<open>Sequences of engine operations\<close>

datatype engine_op =
    Op_get int64 string
  | Op_set string CacheEntry
  | Op_del string
  | Op_cas int64 string int64 CacheEntry
  | Op_exists int64 string
  | Op_clear

fun step :: "platform \<Rightarrow> engine_op \<Rightarrow> ShardedHashTable \<Rightarrow> ShardedHashTable" where
  "step pf (Op_get now k) e = snd (get pf now k e)"
| "step pf (Op_set k entry) e = snd (set_e pf k entry e)"
| "step pf (Op_del k) e = snd (del pf k e)"
| "step pf (Op_cas now k expected entry) e = snd (compare_and_swap pf now k expected entry e)"
| "step pf (Op_exists now k) e = e"
| "step pf Op_clear e = clear e"

definition run :: "platform \<Rightarrow> engine_op list \<Rightarrow> ShardedHashTable \<Rightarrow> ShardedHashTable" where
  "run pf ops e = fold (step pf) ops e"

text \<open>The entries physically present in the shard maps, expired or not.\<close>

definition stored_entries :: "ShardedHashTable \<Rightarrow> (string \<times> CacheEntry) list" where
  "stored_entries e = concat (map sh_data (shards e))"

definition stored_bytes :: "platform \<Rightarrow> (string \<times> CacheEntry) list \<Rightarrow> nat" where
  "stored_bytes pf xs = sum_list (map (\<lambda>(k, ent). total_size pf ent) xs)"

section \<open>Notions used in the proofs\<close>

text \<open>
  A shard is consistent when its map has no key twice and its own byte counter is the
  sum over its entries; the engine is consistent when it has a shard, every shard is
  consistent, and the two engine-wide counters are the sums over the shards.
\<close>

definition shard_ok :: "platform \<Rightarrow> Shard \<Rightarrow> bool" where
  "shard_ok pf s = (distinct (map fst (sh_data s)) \<and> sh_memory_bytes s = stored_bytes pf (sh_data s))"

definition engine_inv :: "platform \<Rightarrow> ShardedHashTable \<Rightarrow> bool" where
  "engine_inv pf e =
     (shards e \<noteq> [] \<and> list_all (shard_ok pf) (shards e) \<and>
      total_entries e = sum_list (map (\<lambda>s. length (sh_data s)) (shards e)) \<and>
      total_memory_bytes e = sum_list (map (\<lambda>s. stored_bytes pf (sh_data s)) (shards e)))"

definition evict_rel :: "platform \<Rightarrow> nat \<Rightarrow> nat \<Rightarrow> evict_state \<Rightarrow> bool" where
  "evict_rel pf R N st = (case st of (s, tmem, tent, mt) \<Rightarrow>
     shard_ok pf s \<and> tmem = stored_bytes pf (sh_data s) + R \<and> tent = length (sh_data s) + N)"

text \<open>What \<open>set\<close> holds after its eviction step, before it inserts a fresh key.\<close>

definition pre_insert :: "platform \<Rightarrow> string \<Rightarrow> CacheEntry \<Rightarrow> ShardedHashTable \<Rightarrow> evict_state" where
  "pre_insert pf k entry e =
     (if needs_eviction (max_memory_bytes e) (total_memory_bytes e) (total_size pf entry)
      then evict_if_needed pf (max_memory_bytes e) (total_size pf entry)
             (get_shard pf e k, total_memory_bytes e, total_entries e, metrics e)
      else (get_shard pf e k, total_memory_bytes e, total_entries e, metrics e))"

text \<open>Concrete inputs on which the theorems are run.\<close>

definition pfc :: platform where
  "pfc = \<lparr> sizeof_CacheEntry = 168, std_hash = length \<rparr>"

definition ent_a :: CacheEntry where
  "ent_a = new_CacheEntry 1000 ''a'' [1, 2] None"

definition ent_x :: CacheEntry where
  "ent_x = new_CacheEntry 1000 ''a'' [7] (Some 1)"

definition eng_a :: ShardedHashTable where
  "eng_a = snd (set_e pfc ''a'' ent_a (new_ShardedHashTable 2 1000))"

definition eng_x :: ShardedHashTable where
  "eng_x = snd (set_e pfc ''a'' ent_x (new_ShardedHashTable 2 1000))"

definition ops_w :: "engine_op list" where
  "ops_w = [Op_set ''a'' ent_a,
            Op_set ''b'' (new_CacheEntry 1000 ''b'' [7] (Some 1)),
            Op_set ''cc'' (new_CacheEntry 1000 ''cc'' [] None),
            Op_get 1500 ''a'',
            Op_set ''d'' (new_CacheEntry 1600 ''d'' [9] None),
            Op_cas 1700 ''cc'' 1 ent_a,
            Op_del ''zz'',
            Op_exists 1800 ''d'',
            Op_set ''e'' (new_CacheEntry 1600 ''e'' [] (Some 1))]"

definition q_empty :: ReplicationManager where
  "q_empty = \<lparr> rm_max_queue_size = 2, rm_queue = [], rm_queued_ops = 0 \<rparr>"

definition q_full :: ReplicationManager where
  "q_full = snd (QueueDelete 2 ''k2'' 1 (snd (QueueWrite 1 ''k1'' ''v1'' 60 1 q_empty)))"

definition follower5 :: ReplicationServiceImpl where
  "follower5 = snd (Replicate pfc 1000 0
      \<lparr> rb_source_node_id = ''node1'', rb_timestamp = 1000,
        rb_entries = [\<lparr> re_op = Rep_SET, re_key = ''k'', re_value = ''new'', re_ttl_seconds = 0,
                        re_version = 5 \<rparr>] \<rparr>
      \<lparr> rs_storage = new_ShardedHashTable 2 1000, rs_batches_received = 0, rs_entries_applied = 0,
        rs_entries_failed = 0, rs_last_applied_timestamp = 0 \<rparr>)"

definition stale_batch :: ReplicationBatch where
  "stale_batch = \<lparr> rb_source_node_id = ''node1'', rb_timestamp = 2000,
        rb_entries = [\<lparr> re_op = Rep_SET, re_key = ''k'', re_value = ''old'', re_ttl_seconds = 0,
                        re_version = 3 \<rparr>] \<rparr>"

definition io_ok :: io where
  "io_ok = \<lparr> io_open_ok = True, io_existing_size = 0, io_header_ok = True, io_header_len = 20,
             io_entry_ok = True, io_entry_len = 80 \<rparr>"

definition io_no_open :: io where
  "io_no_open = io_ok\<lparr>io_open_ok := False\<rparr>"

definition wal_set_a :: WALEntry where
  "wal_set_a = \<lparr> we_type = WAL_SET, we_sequence_number = 0, we_timestamp_ms = 1000, we_key = ''a'',
                 we_value = [1], we_version = 1, we_ttl_seconds = None, we_expected_version = None \<rparr>"

definition snap_old :: SnapshotMetadata where
  "snap_old = \<lparr> sm_snapshot_id = ''snapshot-node1-1000'', sm_timestamp = 1000, sm_num_keys = 1,
                sm_total_bytes = 64, sm_node_id = ''node1'', sm_checksum = ''00000000000000aa'',
                sm_file_path = ''snapshots/snapshot-node1-1000.snapshot'' \<rparr>"

definition snap_new :: SnapshotMetadata where
  "snap_new = \<lparr> sm_snapshot_id = ''snapshot-node1-2000'', sm_timestamp = 2000, sm_num_keys = 1,
                sm_total_bytes = 64, sm_node_id = ''node1'', sm_checksum = ''00000000000000bb'',
                sm_file_path = ''snapshots/snapshot-node1-2000.snapshot'' \<rparr>"

definition snap_dir :: snapshot_dir where
  "snap_dir p = (if p = ''snapshots/snapshot-node1-1000.snapshot'' then Some [(''a'', ent_a)] else None)"

definition snap_mgr :: SnapshotManager where
  "snap_mgr = \<lparr> snm_snapshots = [snap_old, snap_new], snm_total_restores = 0,
                snm_total_restores_failed = 0 \<rparr>"

definition ring_old :: HashRing where
  "ring_old k = Some ''node1''"

definition ring_new :: HashRing where
  "ring_new k = (if k = ''a'' then Some ''node2'' else Some ''node1'')"

definition orch :: RebalanceOrchestrator where
  "orch = \<lparr> old_ring = ring_old, new_ring = ring_new, jobs = [], job_counter = 0,
            stats_total_jobs = 0, stats_active_jobs = 0 \<rparr>"

definition eng_ab :: ShardedHashTable where
  "eng_ab = snd (set_e pfc ''b'' (new_CacheEntry 1000 ''b'' [3] None) eng_a)"

definition mk_job_id :: "nat \<Rightarrow> nat \<Rightarrow> string" where
  "mk_job_id t c = ''job-'' @ replicate t CHR ''s'' @ ''-'' @ replicate c CHR ''i''"

definition classify :: "bool \<Rightarrow> bool \<Rightarrow> ComparisonResult" where
  "classify d1 d2 =
     (if d1 \<and> d2 then CONCURRENT else if d1 then GREATER else if d2 then LESS else EQUAL)"

definition nonneg :: "VersionVector \<Rightarrow> bool" where
  "nonneg v = list_all (\<lambda>(n, x). 0 \<le>s x) v"

definition vv3 :: VersionVector where "vv3 = [(''node1'', 5), (''node2'', 3)]"

definition vv4 :: VersionVector where "vv4 = [(''node1'', 6), (''node2'', 3)]"

definition vv8 :: VersionVector where "vv8 = [(''node1'', 4), (''node2'', 5)]"

definition vv_m :: VersionVector where "vv_m = [(''node1'', 3), (''node2'', 7), (''node3'', 2)]"

section \<open>Association lists and sums\<close>

lemma length_update_Some: "map_of xs k = Some old \<Longrightarrow> length (AList.update k v xs) = length xs"
  by (induction xs) (auto split: if_splits)

lemma length_update_None: "map_of xs k = None \<Longrightarrow> length (AList.update k v xs) = Suc (length xs)"
  by (induction xs) (auto split: if_splits)

lemma length_delete_Some:
  "distinct (map fst xs) \<Longrightarrow> map_of xs k = Some old \<Longrightarrow> Suc (length (AList.delete k xs)) = length xs"
  by (induction xs) (auto simp: delete_notin_dom split: if_splits)

lemma stored_bytes_Nil [simp]: "stored_bytes pf [] = 0"
  by (simp add: stored_bytes_def)

lemma stored_bytes_Cons [simp]: "stored_bytes pf ((k, v) # xs) = total_size pf v + stored_bytes pf xs"
  by (simp add: stored_bytes_def)

lemma stored_bytes_append [simp]: "stored_bytes pf (xs @ ys) = stored_bytes pf xs + stored_bytes pf ys"
  by (simp add: stored_bytes_def)

lemma stored_bytes_update_Some:
  "map_of xs k = Some old \<Longrightarrow>
     stored_bytes pf (AList.update k v xs) + total_size pf old = stored_bytes pf xs + total_size pf v"
  by (induction xs) (auto split: if_splits)

lemma stored_bytes_update_None:
  "map_of xs k = None \<Longrightarrow> stored_bytes pf (AList.update k v xs) = stored_bytes pf xs + total_size pf v"
  by (induction xs) (auto split: if_splits)

lemma stored_bytes_delete_Some:
  "distinct (map fst xs) \<Longrightarrow> map_of xs k = Some old \<Longrightarrow>
     stored_bytes pf (AList.delete k xs) + total_size pf old = stored_bytes pf xs"
  by (induction xs) (auto simp: delete_notin_dom split: if_splits)

lemma stored_bytes_ge:
  "map_of xs k = Some old \<Longrightarrow> total_size pf old \<le> stored_bytes pf xs"
  by (induction xs) (auto split: if_splits)

lemma sum_list_update_nat:
  fixes f :: "'a \<Rightarrow> nat"
  shows "i < length xs \<Longrightarrow> sum_list (map f (xs[i := y])) + f (xs ! i) = sum_list (map f xs) + f y"
  by (induction xs arbitrary: i) (auto split: nat.splits)

section \<open>The eviction loop keeps the counters exact\<close>

lemma evict_rel_step:
  assumes "evict_rel pf R N (s, tmem, tent, mt)" and "map_of (sh_data s) k = Some ent"
  shows "evict_rel pf R N
           (s\<lparr> sh_data := AList.delete k (sh_data s), sh_lru_list := l,
               sh_memory_bytes := sh_memory_bytes s - total_size pf ent \<rparr>,
            tmem - total_size pf ent, tent - 1, mt')"
proof -
  from assms have d: "distinct (map fst (sh_data s))"
    and m: "sh_memory_bytes s = stored_bytes pf (sh_data s)"
    and t: "tmem = stored_bytes pf (sh_data s) + R"
    and n: "tent = length (sh_data s) + N"
    by (simp_all add: evict_rel_def shard_ok_def)
  have b: "stored_bytes pf (AList.delete k (sh_data s)) + total_size pf ent = stored_bytes pf (sh_data s)"
    using d assms(2) by (rule stored_bytes_delete_Some)
  have l: "Suc (length (AList.delete k (sh_data s))) = length (sh_data s)"
    using d assms(2) by (rule length_delete_Some)
  have d': "distinct (map fst (AList.delete k (sh_data s)))"
    using d by (rule distinct_delete)
  show ?thesis
    using d' m t n by (simp add: evict_rel_def shard_ok_def b [symmetric] l [symmetric])
qed

lemma evict_rel_skip:
  "evict_rel pf R N (s, tmem, tent, mt) \<Longrightarrow> evict_rel pf R N (s\<lparr>sh_lru_list := l\<rparr>, tmem, tent, mt)"
  by (simp add: evict_rel_def shard_ok_def)

lemma evict_stop:
  "\<not> (needs_eviction mx tmem rq \<and> sh_lru_list s \<noteq> []) \<Longrightarrow>
     evict_if_needed pf mx rq (s, tmem, tent, mt) = (s, tmem, tent, mt)"
  by (subst evict_if_needed.simps) (rule if_not_P)

lemma evict_skip:
  "needs_eviction mx tmem rq \<and> sh_lru_list s \<noteq> [] \<Longrightarrow>
   map_of (sh_data s) (last (sh_lru_list s)) = None \<Longrightarrow>
     evict_if_needed pf mx rq (s, tmem, tent, mt) =
     evict_if_needed pf mx rq (s\<lparr>sh_lru_list := butlast (sh_lru_list s)\<rparr>, tmem, tent, mt)"
  by (subst evict_if_needed.simps, subst if_P, assumption, simp)

lemma evict_drop:
  "needs_eviction mx tmem rq \<and> sh_lru_list s \<noteq> [] \<Longrightarrow>
   map_of (sh_data s) (last (sh_lru_list s)) = Some ent \<Longrightarrow>
     evict_if_needed pf mx rq (s, tmem, tent, mt) =
     evict_if_needed pf mx rq
       (s\<lparr> sh_data := AList.delete (last (sh_lru_list s)) (sh_data s),
           sh_lru_list := butlast (sh_lru_list s),
           sh_memory_bytes := sh_memory_bytes s - total_size pf ent \<rparr>,
        tmem - total_size pf ent, tent - 1,
        mt\<lparr> m_evictions_total := m_evictions_total mt + 1,
            m_entries_count := tent - 1, m_memory_bytes := tmem - total_size pf ent \<rparr>)"
  by (subst evict_if_needed.simps, subst if_P, assumption, simp add: Let_def)

lemma evict_if_needed_rel:
  "evict_rel pf R N st \<Longrightarrow> evict_rel pf R N (evict_if_needed pf mx rq st)"
proof (induction pf mx rq st rule: evict_if_needed.induct)
  case (1 pf mx rq shard tmem tent mt)
  show ?case
  proof (cases "needs_eviction mx tmem rq \<and> sh_lru_list shard \<noteq> []")
    case False
    then show ?thesis using "1.prems" by (simp only: evict_stop [OF False])
  next
    case True
    show ?thesis
    proof (cases "map_of (sh_data shard) (last (sh_lru_list shard))")
      case None
      have "evict_rel pf R N (shard\<lparr>sh_lru_list := butlast (sh_lru_list shard)\<rparr>, tmem, tent, mt)"
        using "1.prems" by (rule evict_rel_skip)
      then have "evict_rel pf R N (evict_if_needed pf mx rq
                   (shard\<lparr>sh_lru_list := butlast (sh_lru_list shard)\<rparr>, tmem, tent, mt))"
        by (rule "1.IH"(1) [OF True refl None])
      then show ?thesis by (simp only: evict_skip [OF True None])
    next
      case (Some ent)
      let ?st = "(shard\<lparr> sh_data := AList.delete (last (sh_lru_list shard)) (sh_data shard),
                         sh_lru_list := butlast (sh_lru_list shard),
                         sh_memory_bytes := sh_memory_bytes shard - total_size pf ent \<rparr>,
                  tmem - total_size pf ent, tent - 1,
                  mt\<lparr> m_evictions_total := m_evictions_total mt + 1,
                      m_entries_count := tent - 1, m_memory_bytes := tmem - total_size pf ent \<rparr>)"
      have "evict_rel pf R N ?st"
        using "1.prems" Some by (rule evict_rel_step)
      then have "evict_rel pf R N (evict_if_needed pf mx rq ?st)"
        by (rule "1.IH"(2) [OF True refl Some refl refl refl refl refl])
      then show ?thesis by (simp only: evict_drop [OF True Some])
    qed
  qed
qed

lemma evict_if_needed_absent:
  "map_of (sh_data (fst st)) k = None \<Longrightarrow> map_of (sh_data (fst (evict_if_needed pf mx rq st))) k = None"
proof (induction pf mx rq st rule: evict_if_needed.induct)
  case (1 pf mx rq shard tmem tent mt)
  show ?case
  proof (cases "needs_eviction mx tmem rq \<and> sh_lru_list shard \<noteq> []")
    case False
    then show ?thesis using "1.prems" by (simp only: evict_stop [OF False])
  next
    case True
    show ?thesis
    proof (cases "map_of (sh_data shard) (last (sh_lru_list shard))")
      case None
      have "map_of (sh_data (fst (shard\<lparr>sh_lru_list := butlast (sh_lru_list shard)\<rparr>, tmem, tent, mt))) k = None"
        using "1.prems" by simp
      then show ?thesis
        using "1.IH"(1) [OF True refl None] by (simp only: evict_skip [OF True None])
    next
      case (Some ent)
      let ?st = "(shard\<lparr> sh_data := AList.delete (last (sh_lru_list shard)) (sh_data shard),
                         sh_lru_list := butlast (sh_lru_list shard),
                         sh_memory_bytes := sh_memory_bytes shard - total_size pf ent \<rparr>,
                  tmem - total_size pf ent, tent - 1,
                  mt\<lparr> m_evictions_total := m_evictions_total mt + 1,
                      m_entries_count := tent - 1, m_memory_bytes := tmem - total_size pf ent \<rparr>)"
      have "map_of (sh_data (fst ?st)) k = None"
        using "1.prems" by (simp add: delete_conv')
      then show ?thesis
        using "1.IH"(2) [OF True refl Some refl refl refl refl refl]
        by (simp only: evict_drop [OF True Some])
    qed
  qed
qed

section \<open>Every engine operation keeps the engine consistent\<close>

lemma list_all_update:
  "list_all P xs \<Longrightarrow> P y \<Longrightarrow> list_all P (xs[i := y])"
  by (induction xs arbitrary: i) (auto split: nat.splits)

lemma shard_index_less:
  "shards e \<noteq> [] \<Longrightarrow> get_shard_index pf e k < length (shards e)"
  by (simp add: get_shard_index_def)

lemma engine_inv_replace:
  assumes inv: "engine_inv pf e"
    and ok: "shard_ok pf s'"
    and ent: "tent + length (sh_data (get_shard pf e k)) = total_entries e + length (sh_data s')"
    and mem: "tmem + stored_bytes pf (sh_data (get_shard pf e k)) =
              total_memory_bytes e + stored_bytes pf (sh_data s')"
    and e': "shards e' = (shards e)[get_shard_index pf e k := s']"
            "total_entries e' = tent" "total_memory_bytes e' = tmem"
  shows "engine_inv pf e'"
proof -
  let ?i = "get_shard_index pf e k"
  from inv have ne: "shards e \<noteq> []" and all: "list_all (shard_ok pf) (shards e)"
    and te: "total_entries e = sum_list (map (\<lambda>s. length (sh_data s)) (shards e))"
    and tm: "total_memory_bytes e = sum_list (map (\<lambda>s. stored_bytes pf (sh_data s)) (shards e))"
    by (simp_all add: engine_inv_def)
  have i: "?i < length (shards e)" using ne by (rule shard_index_less)
  have s1: "sum_list (map (\<lambda>s. length (sh_data s)) ((shards e)[?i := s'])) + length (sh_data (shards e ! ?i))
            = sum_list (map (\<lambda>s. length (sh_data s)) (shards e)) + length (sh_data s')"
    using i by (rule sum_list_update_nat)
  have s2: "sum_list (map (\<lambda>s. stored_bytes pf (sh_data s)) ((shards e)[?i := s'])) + stored_bytes pf (sh_data (shards e ! ?i))
            = sum_list (map (\<lambda>s. stored_bytes pf (sh_data s)) (shards e)) + stored_bytes pf (sh_data s')"
    using i by (rule sum_list_update_nat)
  have a: "list_all (shard_ok pf) ((shards e)[?i := s'])"
    using all ok by (rule list_all_update)
  have n: "(shards e)[?i := s'] \<noteq> []" using ne by simp
  have c1: "tent = sum_list (map (\<lambda>s. length (sh_data s)) ((shards e)[?i := s']))"
    using s1 ent te by (simp add: get_shard_def)
  have c2: "tmem = sum_list (map (\<lambda>s. stored_bytes pf (sh_data s)) ((shards e)[?i := s']))"
    using s2 mem tm by (simp add: get_shard_def)
  show ?thesis
    using a n c1 c2 e' by (simp add: engine_inv_def)
qed

lemma inv_shard_ok:
  "engine_inv pf e \<Longrightarrow> shard_ok pf (get_shard pf e k)"
  by (simp add: engine_inv_def get_shard_def list_all_length shard_index_less)

lemma inv_shard_le:
  assumes "engine_inv pf e"
  shows "stored_bytes pf (sh_data (get_shard pf e k)) \<le> total_memory_bytes e"
    and "length (sh_data (get_shard pf e k)) \<le> total_entries e"
proof -
  from assms have ne: "shards e \<noteq> []"
    and te: "total_entries e = sum_list (map (\<lambda>s. length (sh_data s)) (shards e))"
    and tm: "total_memory_bytes e = sum_list (map (\<lambda>s. stored_bytes pf (sh_data s)) (shards e))"
    by (simp_all add: engine_inv_def)
  have i: "get_shard_index pf e k < length (shards e)" using ne by (rule shard_index_less)
  then have m: "get_shard pf e k \<in> set (shards e)" by (simp add: get_shard_def)
  show "stored_bytes pf (sh_data (get_shard pf e k)) \<le> total_memory_bytes e"
    unfolding tm using m by (simp add: member_le_sum_list)
  show "length (sh_data (get_shard pf e k)) \<le> total_entries e"
    unfolding te using m by (simp add: member_le_sum_list)
qed

lemma set_e_replace:
  assumes "stored pf e k = Some old"
  shows "set_e pf k entry e =
     (True, (put_shard pf e k
        ((get_shard pf e k)\<lparr> sh_data := AList.update k entry (sh_data (get_shard pf e k)),
            sh_lru_list := splice_front k (sh_lru_list (get_shard pf e k)),
            sh_memory_bytes := sh_memory_bytes (get_shard pf e k) - total_size pf old + total_size pf entry \<rparr>))
        \<lparr>total_memory_bytes := total_memory_bytes e - total_size pf old + total_size pf entry\<rparr>)"
  using assms by (simp add: set_e_def stored_def Let_def)

lemma set_e_insert:
  assumes "stored pf e k = None" and "pre_insert pf k entry e = (shard1, tmem1, tent1, mt1)"
  shows "set_e pf k entry e =
     (True, (put_shard pf e k
        (shard1\<lparr> sh_lru_list := k # sh_lru_list shard1,
                 sh_data := AList.update k entry (sh_data shard1),
                 sh_memory_bytes := sh_memory_bytes shard1 + total_size pf entry \<rparr>))
        \<lparr> total_memory_bytes := tmem1 + total_size pf entry, total_entries := tent1 + 1,
          metrics := mt1\<lparr> m_sets_total := m_sets_total mt1 + 1, m_entries_count := tent1 + 1,
                          m_memory_bytes := tmem1 + total_size pf entry \<rparr> \<rparr>)"
  using assms by (simp add: set_e_def stored_def Let_def pre_insert_def)

lemma pre_insert_rel:
  assumes "engine_inv pf e"
  shows "evict_rel pf (total_memory_bytes e - stored_bytes pf (sh_data (get_shard pf e k)))
           (total_entries e - length (sh_data (get_shard pf e k))) (pre_insert pf k entry e)"
proof -
  have "evict_rel pf (total_memory_bytes e - stored_bytes pf (sh_data (get_shard pf e k)))
           (total_entries e - length (sh_data (get_shard pf e k)))
           (get_shard pf e k, total_memory_bytes e, total_entries e, metrics e)"
    using inv_shard_ok [OF assms, of k] inv_shard_le [OF assms, of k]
    by (simp add: evict_rel_def)
  then show ?thesis
    by (simp add: pre_insert_def evict_if_needed_rel)
qed

lemma pre_insert_absent:
  assumes "stored pf e k = None"
  shows "map_of (sh_data (fst (pre_insert pf k entry e))) k = None"
  using assms evict_if_needed_absent [of "(get_shard pf e k, total_memory_bytes e, total_entries e, metrics e)" k]
  by (simp add: pre_insert_def stored_def)

lemma set_e_inv:
  assumes inv: "engine_inv pf e"
  shows "engine_inv pf (snd (set_e pf k entry e))"
proof (cases "stored pf e k")
  case (Some old)
  let ?s = "get_shard pf e k"
  have ok: "shard_ok pf ?s" using inv by (rule inv_shard_ok)
  have m: "map_of (sh_data ?s) k = Some old" using Some by (simp add: stored_def)
  have ge: "total_size pf old \<le> stored_bytes pf (sh_data ?s)" using m by (rule stored_bytes_ge)
  have le: "stored_bytes pf (sh_data ?s) \<le> total_memory_bytes e" using inv by (rule inv_shard_le)
  have b: "stored_bytes pf (AList.update k entry (sh_data ?s)) + total_size pf old
           = stored_bytes pf (sh_data ?s) + total_size pf entry"
    using m by (rule stored_bytes_update_Some)
  have l: "length (AList.update k entry (sh_data ?s)) = length (sh_data ?s)"
    using m by (rule length_update_Some)
  show ?thesis
  proof (rule engine_inv_replace [OF inv, where k = k])
    show "shard_ok pf (?s\<lparr> sh_data := AList.update k entry (sh_data ?s),
            sh_lru_list := splice_front k (sh_lru_list ?s),
            sh_memory_bytes := sh_memory_bytes ?s - total_size pf old + total_size pf entry \<rparr>)"
      using ok b ge by (simp add: shard_ok_def distinct_update)
    show "total_entries e + length (sh_data ?s) = total_entries e +
          length (sh_data (?s\<lparr> sh_data := AList.update k entry (sh_data ?s),
            sh_lru_list := splice_front k (sh_lru_list ?s),
            sh_memory_bytes := sh_memory_bytes ?s - total_size pf old + total_size pf entry \<rparr>))"
      using l by simp
    show "total_memory_bytes e - total_size pf old + total_size pf entry + stored_bytes pf (sh_data ?s) =
          total_memory_bytes e + stored_bytes pf (sh_data (?s\<lparr> sh_data := AList.update k entry (sh_data ?s),
            sh_lru_list := splice_front k (sh_lru_list ?s),
            sh_memory_bytes := sh_memory_bytes ?s - total_size pf old + total_size pf entry \<rparr>))"
      using b ge le by simp
  qed (simp_all add: set_e_replace [OF Some] put_shard_def)
next
  case None
  let ?s = "get_shard pf e k"
  obtain shard1 tmem1 tent1 mt1 where p: "pre_insert pf k entry e = (shard1, tmem1, tent1, mt1)"
    by (cases "pre_insert pf k entry e") auto
  have rel: "evict_rel pf (total_memory_bytes e - stored_bytes pf (sh_data ?s))
           (total_entries e - length (sh_data ?s)) (shard1, tmem1, tent1, mt1)"
    using pre_insert_rel [OF inv, of k entry] p by simp
  have ab: "map_of (sh_data shard1) k = None"
    using pre_insert_absent [OF None, of entry] p by simp
  have le: "stored_bytes pf (sh_data ?s) \<le> total_memory_bytes e"
    "length (sh_data ?s) \<le> total_entries e" using inv by (rule inv_shard_le)+
  from rel have ok1: "shard_ok pf shard1"
    and t1: "tmem1 = stored_bytes pf (sh_data shard1) + (total_memory_bytes e - stored_bytes pf (sh_data ?s))"
    and n1: "tent1 = length (sh_data shard1) + (total_entries e - length (sh_data ?s))"
    by (simp_all add: evict_rel_def)
  have b: "stored_bytes pf (AList.update k entry (sh_data shard1)) = stored_bytes pf (sh_data shard1) + total_size pf entry"
    using ab by (rule stored_bytes_update_None)
  have l: "length (AList.update k entry (sh_data shard1)) = Suc (length (sh_data shard1))"
    using ab by (rule length_update_None)
  show ?thesis
  proof (rule engine_inv_replace [OF inv, where k = k])
    show "shard_ok pf (shard1\<lparr> sh_lru_list := k # sh_lru_list shard1,
                 sh_data := AList.update k entry (sh_data shard1),
                 sh_memory_bytes := sh_memory_bytes shard1 + total_size pf entry \<rparr>)"
      using ok1 b by (simp add: shard_ok_def distinct_update)
    show "tent1 + 1 + length (sh_data ?s) = total_entries e +
          length (sh_data (shard1\<lparr> sh_lru_list := k # sh_lru_list shard1,
                 sh_data := AList.update k entry (sh_data shard1),
                 sh_memory_bytes := sh_memory_bytes shard1 + total_size pf entry \<rparr>))"
      using l n1 le by simp
    show "tmem1 + total_size pf entry + stored_bytes pf (sh_data ?s) = total_memory_bytes e +
          stored_bytes pf (sh_data (shard1\<lparr> sh_lru_list := k # sh_lru_list shard1,
                 sh_data := AList.update k entry (sh_data shard1),
                 sh_memory_bytes := sh_memory_bytes shard1 + total_size pf entry \<rparr>))"
      using b t1 le by simp
  qed (simp_all add: set_e_insert [OF None p] put_shard_def)
qed

lemma del_inv:
  assumes inv: "engine_inv pf e"
  shows "engine_inv pf (snd (del pf k e))"
proof (cases "stored pf e k")
  case None
  then show ?thesis using inv by (simp add: del_def stored_def)
next
  case (Some old)
  let ?s = "get_shard pf e k"
  let ?s' = "?s\<lparr> sh_lru_list := remove1 k (sh_lru_list ?s),
                  sh_data := AList.delete k (sh_data ?s),
                  sh_memory_bytes := sh_memory_bytes ?s - total_size pf old \<rparr>"
  have ok: "shard_ok pf ?s" using inv by (rule inv_shard_ok)
  then have d: "distinct (map fst (sh_data ?s))" by (simp add: shard_ok_def)
  have m: "map_of (sh_data ?s) k = Some old" using Some by (simp add: stored_def)
  have le: "stored_bytes pf (sh_data ?s) \<le> total_memory_bytes e"
    "length (sh_data ?s) \<le> total_entries e" using inv by (rule inv_shard_le)+
  have b: "stored_bytes pf (AList.delete k (sh_data ?s)) + total_size pf old = stored_bytes pf (sh_data ?s)"
    using d m by (rule stored_bytes_delete_Some)
  have l: "Suc (length (AList.delete k (sh_data ?s))) = length (sh_data ?s)"
    using d m by (rule length_delete_Some)
  show ?thesis
  proof (rule engine_inv_replace [OF inv, where k = k])
    show "shard_ok pf ?s'"
      using ok by (simp add: shard_ok_def distinct_delete b [symmetric])
    show "total_entries e - 1 + length (sh_data ?s) = total_entries e + length (sh_data ?s')"
      using le by (simp add: l [symmetric])
    show "total_memory_bytes e - total_size pf old + stored_bytes pf (sh_data ?s) =
          total_memory_bytes e + stored_bytes pf (sh_data ?s')"
      using le by (simp add: b [symmetric])
  qed (simp_all add: del_def m Let_def put_shard_def)
qed

lemma compare_and_swap_inv:
  assumes inv: "engine_inv pf e"
  shows "engine_inv pf (snd (compare_and_swap pf now k expected new_entry e))"
proof (cases "stored pf e k")
  case None
  then show ?thesis using inv by (simp add: compare_and_swap_def stored_def)
next
  case (Some cur)
  show ?thesis
  proof (cases "is_expired now cur \<or> ce_version cur \<noteq> expected")
    case True
    then show ?thesis using inv Some by (auto simp add: compare_and_swap_def stored_def Let_def)
  next
    case False
    let ?s = "get_shard pf e k"
    let ?n = "new_entry\<lparr> ce_version := ce_version cur + 1, ce_modified_at_ms := now,
                          ce_last_accessed_ms := now \<rparr>"
    let ?s' = "?s\<lparr> sh_data := AList.update k ?n (sh_data ?s),
                    sh_lru_list := splice_front k (sh_lru_list ?s),
                    sh_memory_bytes := sh_memory_bytes ?s - total_size pf cur + total_size pf ?n \<rparr>"
    have ok: "shard_ok pf ?s" using inv by (rule inv_shard_ok)
    have m: "map_of (sh_data ?s) k = Some cur" using Some by (simp add: stored_def)
    have ge: "total_size pf cur \<le> stored_bytes pf (sh_data ?s)" using m by (rule stored_bytes_ge)
    have le: "stored_bytes pf (sh_data ?s) \<le> total_memory_bytes e" using inv by (rule inv_shard_le)
    have b: "stored_bytes pf (AList.update k ?n (sh_data ?s)) + total_size pf cur
             = stored_bytes pf (sh_data ?s) + total_size pf ?n"
      using m by (rule stored_bytes_update_Some)
    have l: "length (AList.update k ?n (sh_data ?s)) = length (sh_data ?s)"
      using m by (rule length_update_Some)
    show ?thesis
    proof (rule engine_inv_replace [OF inv, where k = k])
      show "shard_ok pf ?s'"
        using ok b ge by (simp add: shard_ok_def distinct_update)
      show "total_entries e + length (sh_data ?s) = total_entries e + length (sh_data ?s')"
        using l by simp
      show "total_memory_bytes e - total_size pf cur + total_size pf ?n + stored_bytes pf (sh_data ?s) =
            total_memory_bytes e + stored_bytes pf (sh_data ?s')"
        using b ge le by simp
    qed (use False in \<open>simp_all add: compare_and_swap_def m Let_def put_shard_def\<close>)
  qed
qed

lemma total_size_touch [simp]: "total_size pf (touch now ent) = total_size pf ent"
  by (simp add: total_size_def touch_def)

lemma miss_inv: "engine_inv pf e \<Longrightarrow> engine_inv pf (miss e)"
  by (simp add: engine_inv_def miss_def)

lemma get_inv:
  assumes inv: "engine_inv pf e"
  shows "engine_inv pf (snd (get pf now k e))"
proof (cases "stored pf e k")
  case None
  then show ?thesis using miss_inv [OF inv] by (simp add: get_def stored_def)
next
  case (Some cur)
  show ?thesis
  proof (cases "is_expired now cur")
    case True
    then show ?thesis using miss_inv [OF inv] Some by (simp add: get_def stored_def)
  next
    case False
    let ?s = "get_shard pf e k"
    let ?s' = "?s\<lparr> sh_lru_list := splice_front k (sh_lru_list ?s),
                    sh_data := AList.update k (touch now cur) (sh_data ?s) \<rparr>"
    have ok: "shard_ok pf ?s" using inv by (rule inv_shard_ok)
    have m: "map_of (sh_data ?s) k = Some cur" using Some by (simp add: stored_def)
    have b: "stored_bytes pf (AList.update k (touch now cur) (sh_data ?s)) + total_size pf cur
             = stored_bytes pf (sh_data ?s) + total_size pf (touch now cur)"
      using m by (rule stored_bytes_update_Some)
    have l: "length (AList.update k (touch now cur) (sh_data ?s)) = length (sh_data ?s)"
      using m by (rule length_update_Some)
    show ?thesis
    proof (rule engine_inv_replace [OF inv, where k = k])
      show "shard_ok pf ?s'"
        using ok b by (simp add: shard_ok_def distinct_update)
      show "total_entries e + length (sh_data ?s) = total_entries e + length (sh_data ?s')"
        using l by simp
      show "total_memory_bytes e + stored_bytes pf (sh_data ?s) =
            total_memory_bytes e + stored_bytes pf (sh_data ?s')"
        using b by simp
    qed (use False in \<open>simp_all add: get_def m Let_def put_shard_def\<close>)
  qed
qed

lemma sum_list_map_zero: "sum_list (map (\<lambda>x. 0::nat) xs) = 0"
  by (induction xs) auto

lemma clear_inv:
  assumes inv: "engine_inv pf e"
  shows "engine_inv pf (clear e)"
proof -
  from inv have "shards e \<noteq> []" by (simp add: engine_inv_def)
  then show ?thesis
    by (simp add: engine_inv_def clear_def list_all_iff shard_ok_def comp_def sum_list_map_zero)
qed

lemma step_inv: "engine_inv pf e \<Longrightarrow> engine_inv pf (step pf op e)"
  by (cases op) (simp_all add: get_inv set_e_inv del_inv compare_and_swap_inv clear_inv)

lemma run_inv: "engine_inv pf e \<Longrightarrow> engine_inv pf (run pf ops e)"
  unfolding run_def by (induction ops arbitrary: e) (simp_all add: step_inv)

lemma new_inv: "0 < n \<Longrightarrow> engine_inv pf (new_ShardedHashTable n mx)"
  by (simp add: engine_inv_def new_ShardedHashTable_def empty_Shard_def shard_ok_def
      list_all_iff comp_def sum_list_map_zero)

lemma length_concat_sum: "length (concat (map f xs)) = sum_list (map (\<lambda>x. length (f x)) xs)"
  by (induction xs) auto

lemma stored_bytes_concat:
  "stored_bytes pf (concat (map f xs)) = sum_list (map (\<lambda>x. stored_bytes pf (f x)) xs)"
  by (induction xs) auto

lemma inv_counters:
  assumes "engine_inv pf e"
  shows "size_e e = length (stored_entries e)"
    and "memory_usage e = stored_bytes pf (stored_entries e)"
  using assms
  by (simp_all add: engine_inv_def size_e_def memory_usage_def stored_entries_def
      length_concat_sum stored_bytes_concat)

lemma stored_put_shard:
  "shards e \<noteq> [] \<Longrightarrow> shards e' = (shards e)[get_shard_index pf e k := s] \<Longrightarrow>
     stored pf e' k = map_of (sh_data s) k"
  by (simp add: stored_def get_shard_def get_shard_index_def)

lemma stored_set_e:
  assumes ne: "shards e \<noteq> []"
  shows "stored pf (snd (set_e pf k entry e)) k = Some entry"
proof (cases "stored pf e k")
  case (Some old)
  show ?thesis
    by (subst stored_put_shard [OF ne, where s = "(get_shard pf e k)\<lparr> sh_data := AList.update k entry (sh_data (get_shard pf e k)),
            sh_lru_list := splice_front k (sh_lru_list (get_shard pf e k)),
            sh_memory_bytes := sh_memory_bytes (get_shard pf e k) - total_size pf old + total_size pf entry \<rparr>"])
       (simp_all add: set_e_replace [OF Some] put_shard_def update_conv')
next
  case None
  obtain shard1 tmem1 tent1 mt1 where p: "pre_insert pf k entry e = (shard1, tmem1, tent1, mt1)"
    by (cases "pre_insert pf k entry e") auto
  show ?thesis
    by (subst stored_put_shard [OF ne, where s = "shard1\<lparr> sh_lru_list := k # sh_lru_list shard1,
                 sh_data := AList.update k entry (sh_data shard1),
                 sh_memory_bytes := sh_memory_bytes shard1 + total_size pf entry \<rparr>"])
       (simp_all add: set_e_insert [OF None p] put_shard_def update_conv')
qed

lemma set_e_returns_True: "fst (set_e pf k entry e) = True"
  by (simp add: set_e_def Let_def split: option.splits prod.splits)

lemma stored_entries_miss [simp]: "stored_entries (miss e) = stored_entries e"
  by (simp add: stored_entries_def miss_def)

section \<open>Claims about the storage engine\<close>

text \<open>
  C2. \<open>compare_and_swap\<close> has exactly four outcomes, decided by what is stored under the
  key. If nothing is stored it fails with ``Key not found'' and no new version. If the
  stored entry is expired it fails with ``Key expired''. If the stored version differs from
  the expected one it fails with ``Version mismatch'' and returns the stored version as
  the actual version. Otherwise (on an engine that has at least one shard) it succeeds,
  returns the stored version plus one as the new version, and the key then holds the new
  entry with that version. In each of the three failing outcomes the engine returned is
  the engine given, counters and metrics included. The new version is computed in
  \<open>int64_t\<close>, so the sum is the 64-bit one.
\<close>

theorem compare_and_swap_outcomes:
  "(stored pf e k = None \<longrightarrow>
      compare_and_swap pf now k expected new_entry e =
        (\<lparr>cas_success = False, cas_new_version = 0, cas_actual_version = 0,
          cas_error = ''Key not found''\<rparr>, e)) \<and>
   (\<forall>cur. stored pf e k = Some cur \<and> is_expired now cur \<longrightarrow>
      compare_and_swap pf now k expected new_entry e =
        (\<lparr>cas_success = False, cas_new_version = 0, cas_actual_version = 0,
          cas_error = ''Key expired''\<rparr>, e)) \<and>
   (\<forall>cur. stored pf e k = Some cur \<and> \<not> is_expired now cur \<and> ce_version cur \<noteq> expected \<longrightarrow>
      compare_and_swap pf now k expected new_entry e =
        (\<lparr>cas_success = False, cas_new_version = 0, cas_actual_version = ce_version cur,
          cas_error = ''Version mismatch''\<rparr>, e)) \<and>
   (\<forall>cur. stored pf e k = Some cur \<and> \<not> is_expired now cur \<and> ce_version cur = expected \<and>
          shards e \<noteq> [] \<longrightarrow>
      fst (compare_and_swap pf now k expected new_entry e) =
        \<lparr>cas_success = True, cas_new_version = ce_version cur + 1, cas_actual_version = 0,
         cas_error = []\<rparr> \<and>
      stored pf (snd (compare_and_swap pf now k expected new_entry e)) k =
        Some (new_entry\<lparr> ce_version := ce_version cur + 1, ce_modified_at_ms := now,
                          ce_last_accessed_ms := now \<rparr>))"
proof (intro conjI allI impI)
  assume "stored pf e k = None"
  then show "compare_and_swap pf now k expected new_entry e =
        (\<lparr>cas_success = False, cas_new_version = 0, cas_actual_version = 0,
          cas_error = ''Key not found''\<rparr>, e)"
    by (simp add: compare_and_swap_def stored_def)
next
  fix cur assume "stored pf e k = Some cur \<and> is_expired now cur"
  then show "compare_and_swap pf now k expected new_entry e =
        (\<lparr>cas_success = False, cas_new_version = 0, cas_actual_version = 0,
          cas_error = ''Key expired''\<rparr>, e)"
    by (simp add: compare_and_swap_def stored_def)
next
  fix cur assume "stored pf e k = Some cur \<and> \<not> is_expired now cur \<and> ce_version cur \<noteq> expected"
  then show "compare_and_swap pf now k expected new_entry e =
        (\<lparr>cas_success = False, cas_new_version = 0, cas_actual_version = ce_version cur,
          cas_error = ''Version mismatch''\<rparr>, e)"
    by (simp add: compare_and_swap_def stored_def Let_def)
next
  fix cur assume a: "stored pf e k = Some cur \<and> \<not> is_expired now cur \<and> ce_version cur = expected \<and>
          shards e \<noteq> []"
  then show "fst (compare_and_swap pf now k expected new_entry e) =
        \<lparr>cas_success = True, cas_new_version = ce_version cur + 1, cas_actual_version = 0,
         cas_error = []\<rparr>"
    by (simp add: compare_and_swap_def stored_def Let_def)
  from a have ne: "shards e \<noteq> []" by simp
  let ?n = "new_entry\<lparr> ce_version := ce_version cur + 1, ce_modified_at_ms := now,
                        ce_last_accessed_ms := now \<rparr>"
  show "stored pf (snd (compare_and_swap pf now k expected new_entry e)) k = Some ?n"
    by (subst stored_put_shard [OF ne, where s = "(get_shard pf e k)\<lparr> sh_data := AList.update k ?n (sh_data (get_shard pf e k)),
                    sh_lru_list := splice_front k (sh_lru_list (get_shard pf e k)),
                    sh_memory_bytes := sh_memory_bytes (get_shard pf e k) - total_size pf cur + total_size pf ?n \<rparr>"])
       (use a in \<open>simp_all add: compare_and_swap_def stored_def Let_def put_shard_def update_conv'\<close>)
qed

theorem compare_and_swap_outcomes_witness:
  "compare_and_swap pfc 2500 ''b'' 1 ent_a eng_a =
     (\<lparr>cas_success = False, cas_new_version = 0, cas_actual_version = 0,
       cas_error = ''Key not found''\<rparr>, eng_a) \<and>
   compare_and_swap pfc 2500 ''a'' 1 ent_a eng_x =
     (\<lparr>cas_success = False, cas_new_version = 0, cas_actual_version = 0,
       cas_error = ''Key expired''\<rparr>, eng_x) \<and>
   compare_and_swap pfc 2500 ''a'' 7 ent_x eng_a =
     (\<lparr>cas_success = False, cas_new_version = 0, cas_actual_version = 1,
       cas_error = ''Version mismatch''\<rparr>, eng_a) \<and>
   fst (compare_and_swap pfc 2500 ''a'' 1 ent_x eng_a) =
     \<lparr>cas_success = True, cas_new_version = 2, cas_actual_version = 0, cas_error = []\<rparr> \<and>
   map_option ce_version (stored pfc (snd (compare_and_swap pfc 2500 ''a'' 1 ent_x eng_a)) ''a'') = Some 2"
proof -
  have h1: "stored pfc eng_a ''b'' = None" by code_simp
  have h2: "stored pfc eng_x ''a'' = Some ent_x \<and> is_expired 2500 ent_x" by code_simp
  have h3: "stored pfc eng_a ''a'' = Some ent_a \<and> \<not> is_expired 2500 ent_a \<and> ce_version ent_a \<noteq> 7"
    by code_simp
  have h4: "stored pfc eng_a ''a'' = Some ent_a \<and> \<not> is_expired 2500 ent_a \<and> ce_version ent_a = 1 \<and>
            shards eng_a \<noteq> []"
    by code_simp
  have v: "ce_version ent_a = 1" by (simp add: ent_a_def new_CacheEntry_def)
  note t1 = compare_and_swap_outcomes [of pfc eng_a "''b''" 2500 1 ent_a]
  note t2 = compare_and_swap_outcomes [of pfc eng_x "''a''" 2500 1 ent_a]
  note t3 = compare_and_swap_outcomes [of pfc eng_a "''a''" 2500 7 ent_x]
  note t4 = compare_and_swap_outcomes [of pfc eng_a "''a''" 2500 1 ent_x]
  have c1: "compare_and_swap pfc 2500 ''b'' 1 ent_a eng_a =
     (\<lparr>cas_success = False, cas_new_version = 0, cas_actual_version = 0,
       cas_error = ''Key not found''\<rparr>, eng_a)"
    using t1 h1 by blast
  have c2: "compare_and_swap pfc 2500 ''a'' 1 ent_a eng_x =
     (\<lparr>cas_success = False, cas_new_version = 0, cas_actual_version = 0,
       cas_error = ''Key expired''\<rparr>, eng_x)"
    using t2 h2 by blast
  have c3: "compare_and_swap pfc 2500 ''a'' 7 ent_x eng_a =
     (\<lparr>cas_success = False, cas_new_version = 0, cas_actual_version = ce_version ent_a,
       cas_error = ''Version mismatch''\<rparr>, eng_a)"
    using t3 h3 by blast
  have c4: "fst (compare_and_swap pfc 2500 ''a'' 1 ent_x eng_a) =
        \<lparr>cas_success = True, cas_new_version = ce_version ent_a + 1, cas_actual_version = 0,
         cas_error = []\<rparr> \<and>
      stored pfc (snd (compare_and_swap pfc 2500 ''a'' 1 ent_x eng_a)) ''a'' =
        Some (ent_x\<lparr> ce_version := ce_version ent_a + 1, ce_modified_at_ms := 2500,
                          ce_last_accessed_ms := 2500 \<rparr>)"
    using t4 h4 by blast
  show ?thesis
    using c1 c2 c3 c4 by (simp add: v)
qed

text \<open>
  C10. After any sequence of \<open>get\<close>, \<open>set\<close> (with the evictions it performs), \<open>del\<close>,
  \<open>compare_and_swap\<close>, \<open>exists\<close> and \<open>clear\<close> on a freshly constructed engine with at
  least one shard, \<open>size()\<close> is the number of entries physically stored in the shard maps
  and \<open>memory_usage()\<close> is the sum of \<open>total_size()\<close> over them. Entries whose expiry has
  passed are among them: for a stored entry that is expired, \<open>get\<close> returns nothing,
  \<open>exists\<close> is false and \<open>compare_and_swap\<close> fails, and none of the three removes it.
\<close>

theorem counters_match_stored_entries:
  assumes "0 < num_shards" and "e = run pf ops (new_ShardedHashTable num_shards max_bytes)"
  shows "size_e e = length (stored_entries e) \<and>
         memory_usage e = stored_bytes pf (stored_entries e) \<and>
         (\<forall>now k ent. stored pf e k = Some ent \<and> is_expired now ent \<longrightarrow>
            fst (get pf now k e) = None \<and>
            stored_entries (snd (get pf now k e)) = stored_entries e \<and>
            \<not> exists_e pf now k e \<and>
            \<not> cas_success (fst (compare_and_swap pf now k expected new_entry e)) \<and>
            snd (compare_and_swap pf now k expected new_entry e) = e)"
proof -
  have inv: "engine_inv pf e"
    unfolding assms(2) using new_inv [OF assms(1)] by (rule run_inv)
  have "\<forall>now k ent. stored pf e k = Some ent \<and> is_expired now ent \<longrightarrow>
            fst (get pf now k e) = None \<and>
            stored_entries (snd (get pf now k e)) = stored_entries e \<and>
            \<not> exists_e pf now k e \<and>
            \<not> cas_success (fst (compare_and_swap pf now k expected new_entry e)) \<and>
            snd (compare_and_swap pf now k expected new_entry e) = e"
    by (simp add: stored_def get_def exists_e_def compare_and_swap_def)
  then show ?thesis
    using inv_counters [OF inv] by blast
qed

theorem counters_match_stored_entries_witness:
  "size_e (run pfc ops_w (new_ShardedHashTable 2 400)) =
     length (stored_entries (run pfc ops_w (new_ShardedHashTable 2 400))) \<and>
   memory_usage (run pfc ops_w (new_ShardedHashTable 2 400)) =
     stored_bytes pfc (stored_entries (run pfc ops_w (new_ShardedHashTable 2 400))) \<and>
   size_e (run pfc ops_w (new_ShardedHashTable 2 400)) = 2 \<and>
   fst (get pfc 3000 ''e'' (run pfc ops_w (new_ShardedHashTable 2 400))) = None \<and>
   stored_entries (snd (get pfc 3000 ''e'' (run pfc ops_w (new_ShardedHashTable 2 400)))) =
     stored_entries (run pfc ops_w (new_ShardedHashTable 2 400))"
proof -
  have h0: "0 < (2::nat)" by simp
  have h1: "stored pfc (run pfc ops_w (new_ShardedHashTable 2 400)) ''e'' =
              Some (new_CacheEntry 1600 ''e'' [] (Some 1)) \<and>
            is_expired 3000 (new_CacheEntry 1600 ''e'' [] (Some 1))"
    by code_simp
  have h2: "size_e (run pfc ops_w (new_ShardedHashTable 2 400)) = 2" by code_simp
  show ?thesis
    using counters_match_stored_entries [OF h0 refl, of pfc ops_w 400 0 ent_a] h1 h2 by blast
qed

lemma Set_rpc_stores_version_1:
  assumes "shards storage \<noteq> []"
  shows "map_option ce_version (stored pf (snd (snd (Set_rpc pf None now k v ttl storage))) k) = Some 1"
proof -
  obtain ok st where r: "set_e pf k (new_CacheEntry now k v ttl) storage = (ok, st)"
    by (cases "set_e pf k (new_CacheEntry now k v ttl) storage") auto
  have "stored pf st k = Some (new_CacheEntry now k v ttl)"
    using stored_set_e [OF assms, of pf k "new_CacheEntry now k v ttl"] r by simp
  moreover have "ce_version (new_CacheEntry now k v ttl) = 1"
    by (simp add: new_CacheEntry_def)
  ultimately show ?thesis
    by (simp add: Set_rpc_def r)
qed

text \<open>
  C1. The claim is that a SET replacing an entry stores the prior version plus one, that a
  SET inserting a key stores version 1, and that SET, SET, GET on one key reports
  version 2. The handler builds every entry with the constructor, which sets version 1,
  hands it to the engine, which stores the entry as given, and answers version 1 (its
  source marks this ``TODO: Proper versioning''). So every SET leaves version 1 under its
  key (the lemma \<open>Set_rpc_stores_version_1\<close>), and in the run below, SET, GET, SET,
  GET on one key, both reads report version 1.
\<close>

theorem set_twice_get_reports_version_1:
  "(let e0 = new_ShardedHashTable 4 1000;
        (s1, r1, e1) = Set_rpc pfc None 1000 ''user:1'' (bytes_of ''Alice'') None e0;
        (s2, g1, e2) = Get_rpc pfc None 1500 ''user:1'' e1;
        (s3, r3, e3) = Set_rpc pfc None 2000 ''user:1'' (bytes_of ''Bob'') None e2;
        (s4, g2, e4) = Get_rpc pfc None 3000 ''user:1'' e3
    in ((gr_found g1, gr_value g1, gr_version g1), (s3, sr_success r3, sr_version r3),
        (gr_found g2, gr_value g2, gr_version g2)))
   = ((True, bytes_of ''Alice'', 1), (OK, True, 1), (True, bytes_of ''Bob'', 1))"
  by code_simp

text \<open>
  C6. The claim is that inserting an entry that does not fit under the memory cap even
  after eviction fails with RESOURCE_EXHAUSTED. The engine's \<open>set\<close> has no failing
  path (the lemma \<open>set_e_returns_True\<close>), although its header documents ``false if
  eviction needed but failed'': on an engine capped at 100 bytes, an entry of 371 bytes
  is stored, the handler answers OK with success, and \<open>memory_usage()\<close> is above the cap.
\<close>

theorem oversized_set_is_stored:
  "(let e0 = new_ShardedHashTable 1 100;
        (st, r, e1) = Set_rpc pfc None 1000 ''big'' (replicate 200 0) None e0
    in (st, sr_success r, map_option ce_value (stored pfc e1 ''big''), memory_usage e1, max_memory_bytes e1))
   = (OK, True, Some (replicate 200 0), 371, 100)"
  by code_simp

section \<open>Claims about replication\<close>

lemma length_shards_put_shard [simp]: "length (shards (put_shard pf e k s)) = length (shards e)"
  by (simp add: put_shard_def)

lemma length_shards_set_e: "length (shards (snd (set_e pf k entry e))) = length (shards e)"
proof (cases "stored pf e k")
  case (Some old)
  show ?thesis by (simp add: set_e_replace [OF Some])
next
  case None
  obtain shard1 tmem1 tent1 mt1 where p: "pre_insert pf k entry e = (shard1, tmem1, tent1, mt1)"
    by (cases "pre_insert pf k entry e") auto
  show ?thesis by (simp add: set_e_insert [OF None p])
qed

lemma length_shards_del: "length (shards (snd (del pf k e))) = length (shards e)"
  by (simp add: del_def Let_def split: option.splits)

lemma apply_entry_keeps:
  assumes "apply_entry pf now indet entry (storage, applied, failed) = (storage', applied', failed')"
  shows "length (shards storage') = length (shards storage) \<and> failed' = failed"
proof (cases "re_op entry")
  case Rep_SET
  obtain ok st where r: "set_e pf (re_key entry)
      ((default_CacheEntry indet)
         \<lparr> ce_value := bytes_of (re_value entry),
           ce_ttl_seconds := (if 0 <s re_ttl_seconds entry then Some (re_ttl_seconds entry) else None),
           ce_version := re_version entry, ce_created_at_ms := now, ce_last_accessed_ms := now \<rparr>)
      storage = (ok, st)"
    by (cases "set_e pf (re_key entry)
      ((default_CacheEntry indet)
         \<lparr> ce_value := bytes_of (re_value entry),
           ce_ttl_seconds := (if 0 <s re_ttl_seconds entry then Some (re_ttl_seconds entry) else None),
           ce_version := re_version entry, ce_created_at_ms := now, ce_last_accessed_ms := now \<rparr>)
      storage") auto
  have ok: "ok" using set_e_returns_True [of pf "re_key entry" _ storage] r
    by (metis fst_conv)
  have l: "length (shards st) = length (shards storage)"
    using length_shards_set_e [of pf "re_key entry" _ storage] r by (metis snd_conv)
  show ?thesis using assms Rep_SET r ok l by (simp add: apply_entry_def Let_def)
next
  case Rep_DELETE
  obtain ok st where r: "del pf (re_key entry) storage = (ok, st)"
    by (cases "del pf (re_key entry) storage") auto
  have l: "length (shards st) = length (shards storage)"
    using length_shards_del [of pf "re_key entry" storage] r by simp
  show ?thesis using assms Rep_DELETE r l by (simp add: apply_entry_def)
qed

lemma fold_apply_entry_keeps:
  "fold (apply_entry pf now indet) es (storage, applied, failed) = (storage', applied', failed') \<Longrightarrow>
     length (shards storage') = length (shards storage) \<and> failed' = failed"
proof (induction es arbitrary: storage applied failed)
  case Nil
  then show ?case by simp
next
  case (Cons x xs)
  obtain s1 a1 f1 where st: "apply_entry pf now indet x (storage, applied, failed) = (s1, a1, f1)"
    by (cases "apply_entry pf now indet x (storage, applied, failed)") auto
  from Cons.prems st have "fold (apply_entry pf now indet) xs (s1, a1, f1) = (storage', applied', failed')"
    by simp
  from Cons.IH [OF this] apply_entry_keeps [OF st] show ?case by simp
qed

lemma apply_entry_set_version:
  assumes "shards storage \<noteq> []" and "re_op entry = Rep_SET"
    and "apply_entry pf now indet entry (storage, applied, failed) = (storage', applied', failed')"
  shows "map_option ce_version (stored pf storage' (re_key entry)) = Some (re_version entry)"
proof -
  let ?c = "(default_CacheEntry indet)
         \<lparr> ce_value := bytes_of (re_value entry),
           ce_ttl_seconds := (if 0 <s re_ttl_seconds entry then Some (re_ttl_seconds entry) else None),
           ce_version := re_version entry, ce_created_at_ms := now, ce_last_accessed_ms := now \<rparr>"
  obtain ok st where r: "set_e pf (re_key entry) ?c storage = (ok, st)"
    by (cases "set_e pf (re_key entry) ?c storage") auto
  have "stored pf st (re_key entry) = Some ?c"
    using stored_set_e [OF assms(1), of pf "re_key entry" ?c] r by simp
  moreover have "storage' = st"
    using assms(2,3) r by (simp add: apply_entry_def Let_def split: if_splits)
  ultimately show ?thesis by simp
qed

text \<open>
  C4, as the code has it. A follower applies every replicated SET without looking at the
  version it stores: a batch is acknowledged as a success, and after a batch whose last
  entry is a SET the entry's key holds the entry's version, whatever was stored before.
  (The engine needs at least one shard.)
\<close>

theorem replicate_applies_set_unconditionally:
  assumes "shards (rs_storage svc) \<noteq> []"
    and "rb_entries request = es @ [entry]"
    and "re_op entry = Rep_SET"
  shows "ack_success (fst (Replicate pf now indet request svc)) \<and>
         map_option ce_version
           (stored pf (rs_storage (snd (Replicate pf now indet request svc))) (re_key entry))
         = Some (re_version entry)"
proof -
  obtain s1 a1 f1 where m: "fold (apply_entry pf now indet) es (rs_storage svc, 0, 0) = (s1, a1, f1)"
    by (cases "fold (apply_entry pf now indet) es (rs_storage svc, 0, 0)") auto
  obtain s2 a2 f2 where l: "apply_entry pf now indet entry (s1, a1, f1) = (s2, a2, f2)"
    by (cases "apply_entry pf now indet entry (s1, a1, f1)") auto
  have k1: "length (shards s1) = length (shards (rs_storage svc)) \<and> f1 = 0"
    using fold_apply_entry_keeps [OF m] .
  then have ne: "shards s1 \<noteq> []" using assms(1) by auto
  have k2: "f2 = f1" using apply_entry_keeps [OF l] by simp
  have v: "map_option ce_version (stored pf s2 (re_key entry)) = Some (re_version entry)"
    using ne assms(3) l by (rule apply_entry_set_version)
  have f: "fold (apply_entry pf now indet) (rb_entries request) (rs_storage svc, 0, 0) = (s2, a2, f2)"
    using m l by (simp add: assms(2))
  show ?thesis
    using v k1 k2 by (simp add: Replicate_def f)
qed

theorem replicate_applies_set_unconditionally_witness:
  "ack_success (fst (Replicate pfc 2000 0 stale_batch follower5)) \<and>
   map_option ce_version (stored pfc (rs_storage (snd (Replicate pfc 2000 0 stale_batch follower5))) ''k'')
     = Some 3"
proof -
  have h1: "shards (rs_storage follower5) \<noteq> []" by code_simp
  have h2: "rb_entries stale_batch = [] @ [\<lparr> re_op = Rep_SET, re_key = ''k'', re_value = ''old'',
              re_ttl_seconds = 0, re_version = 3 \<rparr>]"
    by (simp add: stale_batch_def)
  have h3: "re_op \<lparr> re_op = Rep_SET, re_key = ''k'', re_value = ''old'',
              re_ttl_seconds = 0, re_version = 3 \<rparr> = Rep_SET" by simp
  show ?thesis
    using replicate_applies_set_unconditionally [OF h1 h2 h3, of pfc 2000 0] by simp
qed

text \<open>
  C4, as claimed, fails: a follower that stores version 5 under a key and receives a SET
  of version 3 for it acknowledges the batch and afterwards stores version 3 with the
  older value.
\<close>

theorem replicate_older_version_counterexample:
  "map_option ce_version (stored pfc (rs_storage follower5) ''k'') = Some 5 \<and>
   map_option ce_version (stored pfc (rs_storage (snd (Replicate pfc 2000 0 stale_batch follower5))) ''k'')
     = Some 3 \<and>
   map_option ce_value (stored pfc (rs_storage (snd (Replicate pfc 2000 0 stale_batch follower5))) ''k'')
     = Some (bytes_of ''old'') \<and>
   ack_success (fst (Replicate pfc 2000 0 stale_batch follower5)) \<and>
   rs_entries_failed (snd (Replicate pfc 2000 0 stale_batch follower5)) = 0"
  by code_simp

text \<open>
  C5, as the code has it. When the queue already holds \<open>max_queue_size\<close> entries,
  \<open>QueueWrite\<close> and \<open>QueueDelete\<close> return false and leave the manager as it was: the
  new entry is rejected and nothing queued is dropped.
\<close>

theorem full_queue_rejects_new_entry:
  assumes "rm_max_queue_size m \<le> length (rm_queue m)"
  shows "QueueWrite now k v ttl ver m = (False, m) \<and> QueueDelete now k ver m = (False, m)"
  using assms by (simp add: QueueWrite_def QueueDelete_def)

theorem full_queue_rejects_new_entry_witness:
  "rm_max_queue_size q_full \<le> length (rm_queue q_full) \<and>
   QueueWrite 3 ''k3'' ''v3'' 60 1 q_full = (False, q_full) \<and>
   QueueDelete 3 ''k3'' 1 q_full = (False, q_full)"
proof -
  have h: "rm_max_queue_size q_full \<le> length (rm_queue q_full)" by code_simp
  show ?thesis
    using h full_queue_rejects_new_entry [OF h, of 3 "''k3''" "''v3''" 60 1] by simp
qed

text \<open>
  C5, as claimed (the oldest entry is dropped and the new one admitted), fails: on a
  queue of capacity 2 holding \<open>k1\<close> and \<open>k2\<close>, enqueueing \<open>k3\<close> returns false and the
  queue still holds \<open>k1\<close> and \<open>k2\<close>.
\<close>

theorem full_queue_keeps_oldest_counterexample:
  "length (rm_queue q_full) = rm_max_queue_size q_full \<and>
   fst (QueueWrite 3 ''k3'' ''v3'' 60 1 q_full) = False \<and>
   map q_key (rm_queue (snd (QueueWrite 3 ''k3'' ''v3'' 60 1 q_full))) = [''k1'', ''k2''] \<and>
   fst (QueueDelete 3 ''k3'' 1 q_full) = False \<and>
   map q_key (rm_queue (snd (QueueDelete 3 ''k3'' 1 q_full))) = [''k1'', ''k2'']"
  by code_simp

section \<open>Claims about the write-ahead log, recovery and draining\<close>

lemma AppendEntry_not_open:
  "\<not> wal_is_open w \<Longrightarrow> AppendEntry env entry w = Some (False, w)"
  by (simp add: AppendEntry_def)

lemma AppendEntry_failed_rotation:
  assumes "wal_is_open w" and "ShouldRotate w" and "\<not> io_open_ok env"
  shows "AppendEntry env entry w =
           Some (False, w\<lparr> wal_last_sequence := wal_last_sequence w + 1,
                            wal_file_open := False, wal_is_open := False \<rparr>)"
  using assms by (simp add: AppendEntry_def RotateLog_def ShouldRotate_def Let_def)

lemma AppendEntry_sync_on_write_never_returns:
  assumes "wal_is_open w" and "wal_file_open w" and "\<not> ShouldRotate w" and "io_entry_ok env"
    and "wal_sync_on_write w"
  shows "AppendEntry env entry w = None"
  using assms by (simp add: AppendEntry_def WriteEntryToFile_def ShouldRotate_def Let_def)

text \<open>
  C7. The claim is that a failed append returns failure without advancing the sequence
  counter, so that the next successful append continues without a gap. \<open>AppendEntry\<close>
  does so only when the log is not open (the lemma \<open>AppendEntry_not_open\<close>).
  Otherwise it advances \<open>last_sequence_\<close> first and rotates and writes afterwards, so
  a failure of either leaves the counter advanced (\<open>AppendEntry_failed_rotation\<close>).
  In the run below the log is opened with a size cap of 100 bytes; the first append
  succeeds with sequence 1 and fills the file past the cap; the second append has to
  rotate, the new file cannot be opened, and the append fails, with the counter now at
  2; after the log is opened again the third append succeeds with sequence 3. The
  records written carry the sequences 1 and 3. The log runs with \<open>sync_on_write\<close>
  off, so every append returns.
\<close>

theorem failed_rotation_consumes_a_sequence_number:
  "(case AppendEntry io_ok wal_set_a (Open io_ok (new_WAL 100 False)) of
      None \<Rightarrow> None
    | Some (r1, w1) \<Rightarrow>
        (case AppendEntry io_no_open wal_set_a w1 of
           None \<Rightarrow> None
         | Some (r2, w2) \<Rightarrow>
             (case AppendEntry io_ok wal_set_a (Open io_ok w2) of
                None \<Rightarrow> None
              | Some (r3, w4) \<Rightarrow>
                  Some (r1, GetLastSequenceNumber w1, r2, GetLastSequenceNumber w2, r3,
                        map we_sequence_number (wal_written w4)))))
   = Some (True, 1, False, 2, True, [1, 3])"
  by code_simp

lemma RestoreSnapshot_latest_unreadable:
  assumes "sort_latest_first (ListSnapshots m) = latest # rest"
    and "GetSnapshotMetadata m (sm_snapshot_id latest) = Some meta"
    and "dir (sm_file_path meta) = None"
  shows "RestoreSnapshot pf dir result (m, storage) =
           (False, result, m\<lparr>snm_total_restores_failed := snm_total_restores_failed m + 1\<rparr>, storage)"
  using assms by (simp add: RestoreSnapshot_def RestoreFromSnapshot_def)

text \<open>
  C3. The claim is that recovery restores from the newest snapshot whose checksum
  validates and falls back to the next-newest one when the newest does not. The header
  of the recovery manager says the same (``Find latest valid snapshot''), and its
  configuration has a flag \<open>verify_checksums\<close>, but \<open>RestoreSnapshot\<close> sorts the
  snapshots latest first and tries the first one only (the lemma
  \<open>RestoreSnapshot_latest_unreadable\<close>), and nothing reads the checksum.
  Below, the newer of two snapshots cannot be read and the older one can:
  \<open>RestoreSnapshot\<close> fails and leaves the engine empty, although restoring the older
  snapshot succeeds and yields its entry.
\<close>

theorem unreadable_newest_snapshot_starts_empty:
  "(let e0 = new_ShardedHashTable 2 1000;
        (ok, res, m1, e1) = RestoreSnapshot pfc snap_dir empty_RecoveryResult (snap_mgr, e0);
        (ok2, m2, e2) = RestoreFromSnapshot pfc snap_dir (sm_snapshot_id snap_old) (snap_mgr, e0)
    in (ok, rr_snapshot_restored res, map fst (stored_entries e1), snm_total_restores_failed m1,
        ok2, map fst (stored_entries e2)))
   = (False, False, [], 1, True, [''a''])"
  by code_simp

lemma keys_of_update:
  "set (concat (map snd (AList.update p v paths))) \<subseteq> set v \<union> set (concat (map snd paths))"
  by (induction paths) auto

lemma keys_of_push_path:
  "set (concat (map snd (push_path p k paths))) \<subseteq> insert k (set (concat (map snd paths)))"
proof (cases "map_of paths p")
  case None
  then show ?thesis using keys_of_update [of p "[k]" paths] by (auto simp: push_path_def)
next
  case (Some ks)
  then have "set ks \<subseteq> set (concat (map snd paths))"
    by (auto dest!: map_of_SomeD)
  then show ?thesis using Some keys_of_update [of p "ks @ [k]" paths]
    by (auto simp: push_path_def)
qed

lemma group_keys_fold_skips:
  assumes "old_ring ro k = new_ring ro k" and "k \<notin> set (concat (map snd paths))"
  shows "k \<notin> set (concat (map snd
           (fold (\<lambda>k paths.
              (case (old_ring ro k, new_ring ro k) of
                 (Some old_node, Some new_node) \<Rightarrow>
                   if old_node \<noteq> new_node then push_path (old_node, new_node) k paths else paths
               | _ \<Rightarrow> paths)) ks paths)))"
  using assms(2)
proof (induction ks arbitrary: paths)
  case Nil
  then show ?case by simp
next
  case (Cons x xs)
  let ?p = "(case (old_ring ro x, new_ring ro x) of
                 (Some old_node, Some new_node) \<Rightarrow>
                   if old_node \<noteq> new_node then push_path (old_node, new_node) x paths else paths
               | _ \<Rightarrow> paths)"
  have "k \<notin> set (concat (map snd ?p))"
  proof (cases "x = k")
    case True
    then show ?thesis using assms(1) Cons.prems by (auto split: option.splits)
  next
    case False
    show ?thesis
    proof (cases "old_ring ro x")
      case None
      then show ?thesis using Cons.prems by simp
    next
      case (Some a)
      show ?thesis
      proof (cases "new_ring ro x")
        case None
        then show ?thesis using Some Cons.prems by simp
      next
        case (Some b)
        show ?thesis
          using \<open>old_ring ro x = Some a\<close> Some False Cons.prems keys_of_push_path [of "(a, b)" x paths]
          by auto
      qed
    qed
  qed
  from Cons.IH [OF this] show ?case by simp
qed

lemma unchanged_owner_in_no_path:
  "old_ring ro k = new_ring ro k \<Longrightarrow>
     k \<notin> set (concat (map snd (group_keys_by_migration_path ro ks)))"
  unfolding group_keys_by_migration_path_def by (rule group_keys_fold_skips) simp_all

text \<open>
  C8. The claim is that a drain assigns every key of the local engine to a migration job,
  also a key whose owner is the same in both rings. \<open>start_drain\<close> does collect all the
  keys (its comment: ``we move ALL local keys to other nodes''), but hands them to
  \<open>group_keys_by_migration_path\<close>, which keeps only the keys whose owner differs between
  the rings (the lemma \<open>unchanged_owner_in_no_path\<close>). Below, the engine holds \<open>a\<close>
  and \<open>b\<close>; \<open>b\<close> has the same owner in both rings; the only job created counts one
  key, and \<open>b\<close> belongs to no job.
\<close>

theorem drain_leaves_out_keys_with_unchanged_owner:
  "(let all_keys = map fst (for_each 2000 eng_ab);
        (jid, ro) = start_drain mk_job_id 5 2000 eng_ab orch
    in (all_keys, ring_old ''b'', ring_new ''b'',
        group_keys_by_migration_path orch all_keys,
        map (\<lambda>(i, j). (source_node_id j, target_node_id j, keys_total j)) (jobs ro)))
   = ([''a'', ''b''], Some ''node1'', Some ''node1'',
      [((''node1'', ''node2''), [''a''])],
      [(''node1'', ''node2'', 1)])"
  by code_simp

section \<open>Claims about version vectors\<close>

lemma compare_loop_classify:
  "\<not> (d1 \<and> d2) \<Longrightarrow>
   compare_loop v1 v2 ns d1 d2 =
     classify (d1 \<or> (\<exists>n \<in> set ns. GetVersion v2 n <s GetVersion v1 n))
              (d2 \<or> (\<exists>n \<in> set ns. GetVersion v1 n <s GetVersion v2 n))"
proof (induction ns arbitrary: d1 d2)
  case Nil
  then show ?case by (auto simp: classify_def)
next
  case (Cons x xs)
  have ex: "\<not> (GetVersion v2 x <s GetVersion v1 x \<and> GetVersion v1 x <s GetVersion v2 x)"
    by (auto simp: word_sless_alt)
  show ?case
  proof (cases "GetVersion v2 x <s GetVersion v1 x")
    case True
    then have n: "\<not> GetVersion v1 x <s GetVersion v2 x" using ex by blast
    show ?thesis
    proof (cases d2)
      case True
      then show ?thesis using \<open>GetVersion v2 x <s GetVersion v1 x\<close>
        by (auto simp: classify_def Let_def)
    next
      case False
      then have "\<not> (True \<and> d2)" by simp
      from Cons.IH [OF this] show ?thesis
        using \<open>GetVersion v2 x <s GetVersion v1 x\<close> n False
        by (auto simp: Let_def classify_def)
    qed
  next
    case False
    show ?thesis
    proof (cases "GetVersion v1 x <s GetVersion v2 x")
      case True
      show ?thesis
      proof (cases d1)
        case True
        then show ?thesis using \<open>GetVersion v1 x <s GetVersion v2 x\<close> False
          by (auto simp: classify_def Let_def)
      next
        case d: False
        then have "\<not> (d1 \<and> True)" by simp
        from Cons.IH [OF this] show ?thesis
          using True False d
          by (auto simp: Let_def classify_def)
      qed
    next
      case F2: False
      from Cons.IH [OF Cons.prems] show ?thesis
        using False F2 Cons.prems
        by (auto simp: Let_def classify_def)
    qed
  qed
qed

lemma set_all_nodes: "set (all_nodes v1 v2) = fst ` set v1 \<union> fst ` set v2"
  by (auto simp: all_nodes_def map_of_eq_None_iff)

lemma GetVersion_absent: "n \<notin> fst ` set v \<Longrightarrow> GetVersion v n = 0"
  by (simp add: GetVersion_def map_of_eq_None_iff [THEN iffD2])

lemma higher_somewhere_iff:
  "(\<exists>n \<in> set (all_nodes v1 v2). GetVersion v2 n <s GetVersion v1 n) \<longleftrightarrow>
   (\<exists>n. GetVersion v2 n <s GetVersion v1 n)"
proof
  assume "\<exists>n. GetVersion v2 n <s GetVersion v1 n"
  then obtain n where n: "GetVersion v2 n <s GetVersion v1 n" ..
  have "n \<in> fst ` set v1 \<union> fst ` set v2"
  proof (rule ccontr)
    assume "n \<notin> fst ` set v1 \<union> fst ` set v2"
    then have "GetVersion v1 n = 0" "GetVersion v2 n = 0" by (simp_all add: GetVersion_absent)
    with n show False by (simp add: word_sless_alt)
  qed
  with n show "\<exists>n \<in> set (all_nodes v1 v2). GetVersion v2 n <s GetVersion v1 n"
    by (auto simp: set_all_nodes)
qed blast

lemma all_nodes_commute: "set (all_nodes v2 v1) = set (all_nodes v1 v2)"
  by (auto simp: set_all_nodes)

lemma Compare_classify:
  "Compare v1 v2 = classify (\<exists>n. GetVersion v2 n <s GetVersion v1 n)
                            (\<exists>n. GetVersion v1 n <s GetVersion v2 n)"
proof -
  have "Compare v1 v2 =
     classify (\<exists>n \<in> set (all_nodes v1 v2). GetVersion v2 n <s GetVersion v1 n)
              (\<exists>n \<in> set (all_nodes v1 v2). GetVersion v1 n <s GetVersion v2 n)"
    unfolding Compare_def by (subst compare_loop_classify) simp_all
  also have "(\<exists>n \<in> set (all_nodes v1 v2). GetVersion v1 n <s GetVersion v2 n) \<longleftrightarrow>
             (\<exists>n \<in> set (all_nodes v2 v1). GetVersion v1 n <s GetVersion v2 n)"
    by (simp only: all_nodes_commute)
  finally show ?thesis by (simp only: higher_somewhere_iff)
qed

lemma map_of_Merge_fold:
  "distinct (map fst b) \<Longrightarrow>
   map_of (fold (\<lambda>(node_id, version) result.
            (case map_of result node_id of
               None \<Rightarrow> AList.update node_id version result
             | Some cur \<Rightarrow> AList.update node_id (std_max cur version) result)) b r) n =
   (case map_of b n of
      None \<Rightarrow> map_of r n
    | Some y \<Rightarrow> Some (case map_of r n of None \<Rightarrow> y | Some x \<Rightarrow> std_max x y))"
proof (induction b arbitrary: r)
  case Nil
  then show ?case by simp
next
  case (Cons p b)
  obtain k v where p: "p = (k, v)" by (cases p)
  from Cons.prems p have d: "distinct (map fst b)" and nk: "map_of b k = None"
    by (auto simp: map_of_eq_None_iff)
  show ?case
    using Cons.IH [OF d] nk
    by (cases "map_of r k") (auto simp: p update_conv' split: option.splits)
qed

lemma map_of_Merge:
  "distinct (map fst b) \<Longrightarrow>
   map_of (Merge a b) n =
   (case map_of b n of
      None \<Rightarrow> map_of a n
    | Some y \<Rightarrow> Some (case map_of a n of None \<Rightarrow> y | Some x \<Rightarrow> std_max x y))"
  unfolding Merge_def by (rule map_of_Merge_fold)

lemma sint_std_max: "sint (std_max a b) = max (sint a) (sint b)"
  by (simp add: std_max_def word_sless_alt max_def)

lemma nonneg_map_of: "nonneg v \<Longrightarrow> map_of v n = Some x \<Longrightarrow> 0 \<le> sint x"
  by (auto simp: nonneg_def list_all_iff word_sle_eq dest!: map_of_SomeD)

text \<open>
  C9. For all version vectors \<open>a\<close> and \<open>b\<close>, with an absent node read as 0:
  \<open>Compare a a\<close> is EQUAL; if \<open>Compare a b\<close> is LESS then \<open>Compare b a\<close> is
  GREATER; if neither vector dominates the other (is at least as large at every node and
  larger at one, which is what \<open>Dominates\<close> computes) and the two are not equal at every
  node, \<open>Compare a b\<close> is CONCURRENT.
  \<open>Merge a b\<close> read at any node is the maximum of \<open>a\<close> and \<open>b\<close> read there. A
  version vector is an \<open>unordered_map\<close>, so its keys are distinct, and it holds
  counters, which \<open>Increment\<close> starts at 1 and only raises, so none of them is negative;
  the law for \<open>Merge\<close> is stated for such vectors, the three laws for \<open>Compare\<close> for
  all association lists. The theorem also says what \<open>Merge\<close> stores: for a node present
  in both vectors the larger of the two counters, for a node present in one of them that
  vector's counter.
\<close>

theorem version_vector_laws:
  "Compare a a = EQUAL \<and>
   (Compare a b = LESS \<longrightarrow> Compare b a = GREATER) \<and>
   (\<not> ((\<forall>n. GetVersion b n \<le>s GetVersion a n) \<and> (\<exists>n. GetVersion b n <s GetVersion a n)) \<and>
    \<not> ((\<forall>n. GetVersion a n \<le>s GetVersion b n) \<and> (\<exists>n. GetVersion a n <s GetVersion b n)) \<and>
    \<not> (\<forall>n. GetVersion a n = GetVersion b n)
      \<longrightarrow> Compare a b = CONCURRENT) \<and>
   (Dominates a b \<longleftrightarrow>
      (\<forall>n. GetVersion b n \<le>s GetVersion a n) \<and> (\<exists>n. GetVersion b n <s GetVersion a n)) \<and>
   (distinct (map fst b) \<longrightarrow>
      map_of (Merge a b) n =
        (case map_of a n of
           None \<Rightarrow> map_of b n
         | Some x \<Rightarrow> Some (case map_of b n of None \<Rightarrow> x | Some y \<Rightarrow> std_max x y))) \<and>
   (distinct (map fst b) \<and> nonneg a \<and> nonneg b \<longrightarrow>
      sint (GetVersion (Merge a b) n) = max (sint (GetVersion a n)) (sint (GetVersion b n)))"
proof (intro conjI impI)
  show "Compare a a = EQUAL"
    by (simp add: Compare_classify classify_def word_sless_alt)
next
  assume "Compare a b = LESS"
  then show "Compare b a = GREATER"
    by (auto simp add: Compare_classify [of a b] Compare_classify [of b a] classify_def split: if_splits)
next
  assume h: "\<not> ((\<forall>n. GetVersion b n \<le>s GetVersion a n) \<and> (\<exists>n. GetVersion b n <s GetVersion a n)) \<and>
    \<not> ((\<forall>n. GetVersion a n \<le>s GetVersion b n) \<and> (\<exists>n. GetVersion a n <s GetVersion b n)) \<and>
    \<not> (\<forall>n. GetVersion a n = GetVersion b n)"
  then obtain m where m: "GetVersion a m \<noteq> GetVersion b m" by blast
  then have "sint (GetVersion a m) \<noteq> sint (GetVersion b m)"
    by (auto dest: signed_word_eqI)
  then have "GetVersion a m <s GetVersion b m \<or> GetVersion b m <s GetVersion a m"
    by (auto simp: word_sless_alt)
  then have "(\<exists>n. GetVersion b n <s GetVersion a n) \<and> (\<exists>n. GetVersion a n <s GetVersion b n)"
    using h by (metis word_sle_eq word_sless_alt not_le_imp_less)
  then show "Compare a b = CONCURRENT"
    by (simp add: Compare_classify classify_def)
next
  have "(\<forall>n. GetVersion b n \<le>s GetVersion a n) \<longleftrightarrow> \<not> (\<exists>n. GetVersion a n <s GetVersion b n)"
    by (auto simp: word_sle_eq word_sless_alt not_less)
  then show "Dominates a b \<longleftrightarrow>
      (\<forall>n. GetVersion b n \<le>s GetVersion a n) \<and> (\<exists>n. GetVersion b n <s GetVersion a n)"
    by (auto simp: Dominates_def Compare_classify classify_def)
next
  assume "distinct (map fst b)"
  then show "map_of (Merge a b) n =
        (case map_of a n of
           None \<Rightarrow> map_of b n
         | Some x \<Rightarrow> Some (case map_of b n of None \<Rightarrow> x | Some y \<Rightarrow> std_max x y))"
    by (simp add: map_of_Merge split: option.splits)
next
  assume h: "distinct (map fst b) \<and> nonneg a \<and> nonneg b"
  then have m: "map_of (Merge a b) n =
   (case map_of b n of
      None \<Rightarrow> map_of a n
    | Some y \<Rightarrow> Some (case map_of a n of None \<Rightarrow> y | Some x \<Rightarrow> std_max x y))"
    by (simp add: map_of_Merge)
  show "sint (GetVersion (Merge a b) n) = max (sint (GetVersion a n)) (sint (GetVersion b n))"
    using h nonneg_map_of [of a n] nonneg_map_of [of b n]
    by (auto simp: GetVersion_def m sint_std_max split: option.splits)
qed

theorem version_vector_laws_witness:
  "Compare vv3 vv3 = EQUAL \<and> Compare vv3 vv4 = LESS \<and> Compare vv4 vv3 = GREATER \<and>
   Compare vv3 vv8 = CONCURRENT \<and>
   map_of (Merge vv3 vv_m) ''node3'' = Some 2 \<and>
   sint (GetVersion (Merge vv3 vv_m) ''node2'') = 7"
proof -
  have l: "Compare vv3 vv4 = LESS" by code_simp
  have n1: "\<not> GetVersion vv8 ''node2'' \<le>s GetVersion vv3 ''node2''" by code_simp
  have n2: "\<not> GetVersion vv3 ''node1'' \<le>s GetVersion vv8 ''node1''" by code_simp
  have n3: "GetVersion vv3 ''node1'' \<noteq> GetVersion vv8 ''node1''" by code_simp
  have c: "\<not> ((\<forall>n. GetVersion vv8 n \<le>s GetVersion vv3 n) \<and> (\<exists>n. GetVersion vv8 n <s GetVersion vv3 n)) \<and>
    \<not> ((\<forall>n. GetVersion vv3 n \<le>s GetVersion vv8 n) \<and> (\<exists>n. GetVersion vv3 n <s GetVersion vv8 n)) \<and>
    \<not> (\<forall>n. GetVersion vv3 n = GetVersion vv8 n)"
    using n1 n2 n3 by blast
  have d: "distinct (map fst vv_m)" by code_simp
  have p: "distinct (map fst vv_m) \<and> nonneg vv3 \<and> nonneg vv_m" by code_simp
  have m3: "map_of vv3 ''node3'' = None" "map_of vv_m ''node3'' = Some 2" by code_simp+
  have g: "sint (GetVersion vv3 ''node2'') = 3" "sint (GetVersion vv_m ''node2'') = 7" by code_simp+
  note t1 = version_vector_laws [of vv3 vv4 "''node3''"]
  note t2 = version_vector_laws [of vv3 vv8 "''node3''"]
  note t3 = version_vector_laws [of vv3 vv_m "''node3''"]
  note t4 = version_vector_laws [of vv3 vv_m "''node2''"]
  have r1: "Compare vv3 vv3 = EQUAL" using t1 by blast
  have r2: "Compare vv4 vv3 = GREATER" using t1 l by blast
  have r3: "Compare vv3 vv8 = CONCURRENT" using t2 c by blast
  have r4: "map_of (Merge vv3 vv_m) ''node3'' = Some 2" using t3 d m3 by simp
  have r5: "sint (GetVersion (Merge vv3 vv_m) ''node2'') = 7" using t4 p g by simp
  show ?thesis using l r1 r2 r3 r4 r5 by blast
qed

end
